(* ===== verification/Nim_Prelude.thy ===== *)
theory Nim_Prelude
  imports Complex_Main "HOL-Library.Product_Lexorder"
begin

text \<open>
  Shared vocabulary of the Nim development: the types that name the program's
  values (pile lists, actions, value-table keys), the exceptions the Python
  code can raise, and the interface to the Python runtime that the learners
  consult (the pseudo-random generator of module \<open>random\<close> and the
  iteration order of a Python \<open>set\<close>). It also holds the generic lemmas on
  lists and integer sums that the component theories share.
\<close>

section \<open>Named collections\<close>

named_theorems nim_defs \<open>definitions of the game component unfolded by its proofs\<close>
named_theorems table_simps \<open>rewrite rules for value-table lookups and updates\<close>

section \<open>Types of the model\<close>

text \<open>
  Python integers are unbounded: piles, pile indices and counts are \<open>int\<close>.
  A position is the list \<open>piles\<close> of \<^verbatim>\<open>nim.py\<close>; an action is the tuple
  \<open>(i, j)\<close> ``remove \<open>j\<close> objects from pile \<open>i\<close>''. The learners' dictionary
  \<open>self.q\<close> is keyed by \<open>(tuple(state), action)\<close>, where the action may be
  Python's \<open>None\<close> (the SARSA bootstrap looks up \<open>(state, None)\<close> on a
  terminal state); so the key's action component is an \<open>option\<close>. Floats are
  modelled as \<open>real\<close>.
\<close>

type_synonym piles = "int list"
type_synonym action = "int \<times> int"
type_synonym qkey = "piles \<times> action option"
type_synonym qtable = "qkey \<rightharpoonup> real"

text \<open>The exceptions of the program, one constructor per raise site or runtime error.\<close>

datatype py_error =
    GameAlreadyWon      \<comment> \<open>\<^verbatim>\<open>raise Exception('Game already won.')\<close>\<close>
  | InvalidPile         \<comment> \<open>\<^verbatim>\<open>raise Exception('Invalid pile.')\<close>\<close>
  | InvalidCount        \<comment> \<open>\<^verbatim>\<open>raise Exception('Invalid number of objects.')\<close>\<close>
  | UnpackNone          \<comment> \<open>\<^verbatim>\<open>TypeError\<close>: \<^verbatim>\<open>pile, count = None\<close>\<close>
  | EmptyChoice         \<comment> \<open>\<^verbatim>\<open>IndexError\<close> of \<^verbatim>\<open>random.choice([])\<close>\<close>
  | MissingKey          \<comment> \<open>\<^verbatim>\<open>KeyError\<close> of a dictionary read\<close>
  | ListIndex           \<comment> \<open>\<^verbatim>\<open>IndexError\<close> of a list subscript\<close>
  | EndOfInput          \<comment> \<open>\<^verbatim>\<open>EOFError\<close> of \<^verbatim>\<open>input()\<close>\<close>

section \<open>The Python runtime as an interface\<close>

text \<open>
  The program draws randomness from the global generator of module \<open>random\<close>
  and iterates Python sets in an order fixed by the interpreter. Both are
  made explicit: a runtime is a generator state \<open>'g\<close> threaded through every
  call, with \<open>random.random()\<close> (\<open>rt_random\<close>), the primitive
  \<open>random._randbelow(n)\<close> that \<open>random.choice\<close> uses (\<open>rt_randbelow\<close>), and the
  order in which \<open>list(s)\<close> enumerates a set of actions (\<open>rt_set_list\<close>).
  Every theorem about the learners holds for every runtime that satisfies
  \<open>wf_runtime\<close>: \<open>_randbelow(n)\<close> is below \<open>n\<close>, and listing a finite set
  enumerates it without repetition.
\<close>

record 'g py_runtime =
  rt_random :: "'g \<Rightarrow> real \<times> 'g"
  rt_randbelow :: "nat \<Rightarrow> 'g \<Rightarrow> nat \<times> 'g"
  rt_set_list :: "action set \<Rightarrow> action list"

definition wf_runtime :: "'g py_runtime \<Rightarrow> bool" where
  "wf_runtime rt \<longleftrightarrow>
     (\<forall>n g. 0 < n \<longrightarrow> fst (rt_randbelow rt n g) < n) \<and>
     (\<forall>A. finite A \<longrightarrow> set (rt_set_list rt A) = A \<and> distinct (rt_set_list rt A))"

text \<open>
  \<^verbatim>\<open>random.choice(seq)\<close> of CPython: \<^verbatim>\<open>IndexError\<close> on an empty sequence,
  otherwise \<^verbatim>\<open>seq[self._randbelow(len(seq))]\<close>.
\<close>

definition py_choice :: "'g py_runtime \<Rightarrow> action list \<Rightarrow> 'g \<Rightarrow> py_error + action \<times> 'g" where
  "py_choice rt xs g =
     (if xs = [] then Inl EmptyChoice
      else (case rt_randbelow rt (length xs) g of (k, g') \<Rightarrow> Inr (xs ! k, g')))"

text \<open>
  A concrete runtime used by the witnesses: sets are listed in ascending order,
  the generator state is a pair of streams (as lists) of pre-drawn values for
  \<open>random()\<close> and for \<open>_randbelow\<close>, and an exhausted stream reads \<open>0\<close>.
\<close>

definition stream_runtime :: "(real list \<times> nat list) py_runtime" where
  "stream_runtime =
     \<lparr>rt_random = (\<lambda>(us, ks). (case us of [] \<Rightarrow> (0, ([], ks)) | u # us' \<Rightarrow> (u, (us', ks)))),
      rt_randbelow = (\<lambda>n (us, ks). (case ks of [] \<Rightarrow> (0, (us, [])) | k # ks' \<Rightarrow> (k mod n, (us, ks')))),
      rt_set_list = sorted_list_of_set\<rparr>"

section \<open>Generic lemmas\<close>

lemma wf_runtime_randbelow [intro]:
  "wf_runtime rt \<Longrightarrow> 0 < n \<Longrightarrow> fst (rt_randbelow rt n g) < n"
  by (simp add: wf_runtime_def)

lemma wf_runtime_set_list [simp]:
  "wf_runtime rt \<Longrightarrow> finite A \<Longrightarrow> set (rt_set_list rt A) = A"
  by (simp add: wf_runtime_def)

lemma wf_runtime_set_list_Nil [simp]:
  "wf_runtime rt \<Longrightarrow> finite A \<Longrightarrow> rt_set_list rt A = [] \<longleftrightarrow> A = {}"
  by (metis set_empty wf_runtime_set_list)

lemma wf_runtime_set_list_distinct:
  "wf_runtime rt \<Longrightarrow> finite A \<Longrightarrow> distinct (rt_set_list rt A)"
  by (simp add: wf_runtime_def)

lemma py_choice_Inr:
  assumes "wf_runtime rt" and "py_choice rt xs g = Inr (a, g')"
  shows "a \<in> set xs"
proof -
  from assms(2) have ne: "xs \<noteq> []" by (auto simp: py_choice_def)
  obtain k g1 where k: "rt_randbelow rt (length xs) g = (k, g1)" by (cases "rt_randbelow rt (length xs) g")
  with assms(2) ne have "a = xs ! k" by (simp add: py_choice_def)
  moreover from k ne wf_runtime_randbelow [OF assms(1), of "length xs" g] have "k < length xs" by simp
  ultimately show ?thesis by simp
qed

lemma py_choice_ok:
  "wf_runtime rt \<Longrightarrow> xs \<noteq> [] \<Longrightarrow> \<exists>a g'. py_choice rt xs g = Inr (a, g')"
  by (simp add: py_choice_def split: prod.split)

lemma py_choice_empty [simp]: "py_choice rt [] g = Inl EmptyChoice"
  by (simp add: py_choice_def)

lemma wf_stream_runtime: "wf_runtime stream_runtime"
  by (auto simp: wf_runtime_def stream_runtime_def split: list.splits)

text \<open>The total of a pile list, counting only its positive part (a measure in \<open>nat\<close>).\<close>

definition pile_total :: "piles \<Rightarrow> nat" where
  "pile_total ps = sum_list (map nat ps)"

lemma pile_total_update:
  assumes "i < length ps" and "0 \<le> c" and "c \<le> ps ! i"
  shows "int (pile_total (ps[i := ps ! i - c])) = int (pile_total ps) - c"
  using assms
proof (induction ps arbitrary: i)
  case Nil
  then show ?case by simp
next
  case (Cons p ps)
  then show ?case by (cases i) (auto simp: pile_total_def)
qed

lemma list_all_update_iff:
  "i < length xs \<Longrightarrow> list_all P (xs[i := v]) \<longleftrightarrow> P v \<and> (\<forall>j < length xs. j \<noteq> i \<longrightarrow> P (xs ! j))"
  by (auto simp: list_all_length nth_list_update)

text \<open>
  One temporal-difference step \<open>x + a * (y - x)\<close> with \<open>0 \<le> a \<le> 1\<close> lands
  between the old estimate \<open>x\<close> and the target \<open>y\<close>.
\<close>

lemma td_step_between:
  fixes x y a :: real
  assumes "0 \<le> a" and "a \<le> 1"
  shows "min x y \<le> x + a * (y - x) \<and> x + a * (y - x) \<le> max x y"
proof (cases "x \<le> y")
  case True
  have "0 \<le> a * (y - x)" using assms True by simp
  moreover have "a * (y - x) \<le> y - x" using assms True by (simp add: mult_left_le_one_le)
  ultimately show ?thesis using True by simp
next
  case False
  have "0 \<le> a * (x - y)" using assms False by simp
  moreover have "a * (x - y) \<le> x - y" using assms False by (simp add: mult_left_le_one_le)
  moreover have "a * (y - x) = - (a * (x - y))" by (simp add: algebra_simps)
  ultimately have "y \<le> x + a * (y - x)" "x + a * (y - x) \<le> x" by linarith+
  with False show ?thesis by (simp add: min_def max_def)
qed

end
