(* ===== verification/Nim_Game.thy ===== *)
theory Nim_Game
  imports Nim_Prelude
begin

text \<open>
  The game component, \<^verbatim>\<open>src/nim.py\<close> (class \<^verbatim>\<open>Nim\<close>): the record of a game
  (\<open>piles\<close>, \<open>player\<close>, \<open>winner\<close>), the enumeration of legal actions, the
  player switch and the move with its three error exits. Lemmas: the legal
  action set is exactly the pairs \<open>(i, j)\<close> with \<open>1 \<le> j \<le> piles[i]\<close>; a move
  succeeds exactly on a legal action of an unfinished game; a successful move
  lowers the pile total by the count removed; the game invariant (winner set
  iff all piles are empty, and then equal to the player to move, who is the
  mover) holds in every state reachable from the initial board.
\<close>

section \<open>State\<close>

text \<open>\<^verbatim>\<open>self.piles\<close>, \<^verbatim>\<open>self.player\<close> (0 or 1), \<^verbatim>\<open>self.winner\<close> (\<^verbatim>\<open>None\<close>, 0 or 1).\<close>

record nim =
  piles :: piles
  player :: int
  winner :: "int option"

text \<open>\<^verbatim>\<open>Nim.__init__(self, initial=[1, 3, 5, 7])\<close>: the list is copied.\<close>

definition default_initial :: piles where
  "default_initial = [1, 3, 5, 7]"

definition nim_init :: "piles \<Rightarrow> nim" where
  "nim_init initial = \<lparr>piles = initial, player = 0, winner = None\<rparr>"

section \<open>Operations\<close>

text \<open>
  \<^verbatim>\<open>Nim.available_actions(piles)\<close>: the two nested loops add \<open>(i, j)\<close> for
  \<open>j\<close> in \<open>range(1, pile + 1)\<close>, for each pile in \<open>enumerate(piles)\<close>.
  \<open>available_actions_loop i ps\<close> is the sequence of \<open>add\<close> calls made for the
  piles \<open>ps\<close> enumerated from index \<open>i\<close>; the result is the set they build.
\<close>

fun available_actions_loop :: "int \<Rightarrow> piles \<Rightarrow> action list" where
  "available_actions_loop i [] = []"
| "available_actions_loop i (pile # ps) =
     map (\<lambda>j. (i, j)) [1..pile] @ available_actions_loop (i + 1) ps"

definition available_actions :: "piles \<Rightarrow> action set" where
  "available_actions ps = set (available_actions_loop 0 ps)"

text \<open>\<^verbatim>\<open>other_player\<close>: \<^verbatim>\<open>0 if player == 1 else 1\<close>; \<^verbatim>\<open>switch_player\<close>.\<close>

definition other_player :: "int \<Rightarrow> int" where
  "other_player p = (if p = 1 then 0 else 1)"

definition switch_player :: "nim \<Rightarrow> nim" where
  "switch_player g = g\<lparr>player := other_player (player g)\<rparr>"

text \<open>
  \<^verbatim>\<open>Nim.move(action)\<close>: the three checks in the source's order, each an
  exception; then the pile is decremented and either the mover is declared
  winner (all piles zero) or the turn passes.
\<close>

definition move :: "nim \<Rightarrow> action \<Rightarrow> py_error + nim" where
  "move g a = (case a of (pile, count) \<Rightarrow>
     if winner g \<noteq> None then Inl GameAlreadyWon
     else if pile < 0 \<or> int (length (piles g)) \<le> pile then Inl InvalidPile
     else if count < 1 \<or> piles g ! nat pile < count then Inl InvalidCount
     else
       (let ps = (piles g)[nat pile := piles g ! nat pile - count];
            g1 = g\<lparr>piles := ps\<rparr>
        in if list_all (\<lambda>p. p = 0) ps then Inr (g1\<lparr>winner := Some (player g)\<rparr>)
           else Inr (switch_player g1)))"

declare nim_init_def [nim_defs] move_def [nim_defs] switch_player_def [nim_defs]
  other_player_def [nim_defs]

section \<open>The game invariant and reachable games\<close>

text \<open>
  The invariant of a game in progress or finished: piles never negative, the
  player is 0 or 1, the winner is set iff every pile is empty, and a winner
  is the player recorded as to move (the mover: a winning move does not
  switch the player).
\<close>

definition nim_inv :: "nim \<Rightarrow> bool" where
  "nim_inv g \<longleftrightarrow>
     list_all (\<lambda>p. 0 \<le> p) (piles g) \<and> (player g = 0 \<or> player g = 1) \<and>
     (winner g = None \<longleftrightarrow> \<not> list_all (\<lambda>p. p = 0) (piles g)) \<and>
     (winner g = None \<or> winner g = Some (player g))"

text \<open>Games reachable from a start position by successful moves.\<close>

inductive nim_reach :: "piles \<Rightarrow> nim \<Rightarrow> bool" for initial where
  init: "nim_reach initial (nim_init initial)"
| step: "nim_reach initial g \<Longrightarrow> move g a = Inr g' \<Longrightarrow> nim_reach initial g'"

section \<open>Lemmas on legal actions\<close>

lemma available_actions_loop_iff:
  "(i', j) \<in> set (available_actions_loop i ps) \<longleftrightarrow>
     i \<le> i' \<and> i' < i + int (length ps) \<and> 1 \<le> j \<and> j \<le> ps ! nat (i' - i)"
proof (induction ps arbitrary: i)
  case Nil
  then show ?case by simp
next
  case (Cons p ps)
  show ?case
  proof (cases "i' = i")
    case True
    then show ?thesis using Cons.IH [of "i + 1"] by auto
  next
    case False
    show ?thesis
    proof (cases "i + 1 \<le> i'")
      case True
      then have "nat (i' - i) = Suc (nat (i' - (i + 1)))" by arith
      with True Cons.IH [of "i + 1"] show ?thesis by auto
    next
      case le: False
      with False have "\<not> i \<le> i'" by arith
      with Cons.IH [of "i + 1"] le show ?thesis by auto
    qed
  qed
qed

lemma available_actions_finite [simp]: "finite (available_actions ps)"
  by (simp add: available_actions_def)

lemma available_actions_loop_distinct: "distinct (available_actions_loop i ps)"
proof (induction ps arbitrary: i)
  case Nil
  then show ?case by simp
next
  case (Cons p ps)
  have "(i, j) \<notin> set (available_actions_loop (i + 1) ps)" for j
    by (simp add: available_actions_loop_iff)
  with Cons.IH show ?case by (auto simp: distinct_map inj_on_def)
qed

lemma available_actions_iff:
  "(i, j) \<in> available_actions ps \<longleftrightarrow>
     0 \<le> i \<and> i < int (length ps) \<and> 1 \<le> j \<and> j \<le> ps ! nat i"
  by (simp add: available_actions_def available_actions_loop_iff)

lemma available_actions_empty_iff:
  "available_actions ps = {} \<longleftrightarrow> list_all (\<lambda>p. p \<le> 0) ps"
proof
  assume e: "available_actions ps = {}"
  show "list_all (\<lambda>p. p \<le> 0) ps"
    unfolding list_all_length
  proof (intro allI impI)
    fix n assume n: "n < length ps"
    show "ps ! n \<le> 0"
    proof (rule ccontr)
      assume "\<not> ps ! n \<le> 0"
      with n have "(int n, 1) \<in> available_actions ps" by (simp add: available_actions_iff)
      with e show False by simp
    qed
  qed
next
  assume all: "list_all (\<lambda>p. p \<le> 0) ps"
  show "available_actions ps = {}"
  proof (rule equals0I)
    fix x assume x: "x \<in> available_actions ps"
    obtain i j where ij: "x = (i, j)" by (cases x)
    with x have "nat i < length ps" "1 \<le> j" "j \<le> ps ! nat i"
      by (auto simp: available_actions_iff)
    with all show False by (auto simp: list_all_length)
  qed
qed

section \<open>Lemmas on moves\<close>

text \<open>The legality check of \<open>move\<close> is exactly membership in \<open>available_actions\<close>.\<close>

lemma move_guard_iff:
  "\<not> (pile < 0 \<or> int (length ps) \<le> pile) \<and> \<not> (count < 1 \<or> ps ! nat pile < count) \<longleftrightarrow>
     (pile, count) \<in> available_actions ps"
  by (auto simp: available_actions_iff)

lemma move_Inr_iff:
  "(\<exists>g'. move g a = Inr g') \<longleftrightarrow> winner g = None \<and> a \<in> available_actions (piles g)"
  by (cases a) (simp add: move_def Let_def available_actions_iff)

lemma move_Inr_cases:
  assumes "move g (pile, count) = Inr g'"
  obtains "winner g = None" and "(pile, count) \<in> available_actions (piles g)"
    and "piles g' = (piles g)[nat pile := piles g ! nat pile - count]"
    and "list_all (\<lambda>p. p = 0) (piles g')" and "winner g' = Some (player g)" and "player g' = player g"
  | "winner g = None" and "(pile, count) \<in> available_actions (piles g)"
    and "piles g' = (piles g)[nat pile := piles g ! nat pile - count]"
    and "\<not> list_all (\<lambda>p. p = 0) (piles g')" and "winner g' = None"
    and "player g' = other_player (player g)"
  using assms
  by (auto simp: move_def Let_def available_actions_iff switch_player_def split: if_splits)

lemma move_pile_total:
  assumes "move g (pile, count) = Inr g'"
  shows "int (pile_total (piles g')) = int (pile_total (piles g)) - count"
    and "1 \<le> count"
proof -
  from assms have legal: "(pile, count) \<in> available_actions (piles g)"
    and ps: "piles g' = (piles g)[nat pile := piles g ! nat pile - count]"
    by (auto elim: move_Inr_cases)
  from legal have "nat pile < length (piles g)" "1 \<le> count" "count \<le> piles g ! nat pile"
    by (auto simp: available_actions_iff)
  with ps pile_total_update show "int (pile_total (piles g')) = int (pile_total (piles g)) - count"
    by simp
  from legal show "1 \<le> count" by (simp add: available_actions_iff)
qed

lemma move_decreases: "move g a = Inr g' \<Longrightarrow> pile_total (piles g') < pile_total (piles g)"
  using move_pile_total [of g "fst a" "snd a" g'] by simp

lemma move_length: "move g a = Inr g' \<Longrightarrow> length (piles g') = length (piles g)"
  by (cases a) (auto elim: move_Inr_cases)

lemma move_error_iff:
  "move g (pile, count) = Inl e \<longleftrightarrow>
     (winner g \<noteq> None \<and> e = GameAlreadyWon) \<or>
     (winner g = None \<and> (pile < 0 \<or> int (length (piles g)) \<le> pile) \<and> e = InvalidPile) \<or>
     (winner g = None \<and> 0 \<le> pile \<and> pile < int (length (piles g)) \<and>
      (count < 1 \<or> piles g ! nat pile < count) \<and> e = InvalidCount)"
  by (auto simp: move_def Let_def)

lemma move_winner_is_mover:
  "move g a = Inr g' \<Longrightarrow> winner g' \<noteq> None \<Longrightarrow> winner g' = Some (player g)"
  by (cases a) (auto elim: move_Inr_cases)

section \<open>The invariant holds on every reachable game\<close>

lemma nim_inv_init:
  "list_all (\<lambda>p. 0 \<le> p) initial \<Longrightarrow> \<not> list_all (\<lambda>p. p = 0) initial \<Longrightarrow>
     nim_inv (nim_init initial)"
  by (simp add: nim_inv_def nim_init_def)

lemma move_preserves_inv:
  assumes inv: "nim_inv g" and mv: "move g (pile, count) = Inr g'"
  shows "nim_inv g'"
proof -
  from mv have legal: "(pile, count) \<in> available_actions (piles g)"
    by (auto elim: move_Inr_cases)
  then have i: "nat pile < length (piles g)" and c: "count \<le> piles g ! nat pile"
    by (auto simp: available_actions_iff)
  from inv i c have "0 \<le> piles g ! nat pile - count" by (simp add: available_actions_iff)
  with inv have nonneg: "list_all (\<lambda>p. 0 \<le> p) ((piles g)[nat pile := piles g ! nat pile - count])"
    using i by (auto simp: nim_inv_def list_all_length nth_list_update)
  from inv have pl: "player g = 0 \<or> player g = 1" by (simp add: nim_inv_def)
  from mv show ?thesis
  proof (cases rule: move_Inr_cases)
    case 1
    with nonneg pl show ?thesis by (simp add: nim_inv_def)
  next
    case 2
    with nonneg show ?thesis by (simp add: nim_inv_def other_player_def)
  qed
qed

lemma nim_reach_inv:
  assumes "nim_reach initial g" and "list_all (\<lambda>p. 0 \<le> p) initial"
    and "\<not> list_all (\<lambda>p. p = 0) initial"
  shows "nim_inv g"
  using assms(1)
proof (induction rule: nim_reach.induct)
  case init
  from assms(2,3) show ?case by (rule nim_inv_init)
next
  case (step g a g')
  then show ?case by (cases a) (blast intro: move_preserves_inv)
qed

lemma nim_inv_unfinished_has_action:
  "nim_inv g \<Longrightarrow> winner g = None \<Longrightarrow> available_actions (piles g) \<noteq> {}"
  by (auto simp: nim_inv_def available_actions_empty_iff list_all_length
      dest!: order_antisym)

section \<open>Properties of the game\<close>

text \<open>
  C21. \<^verbatim>\<open>Nim.available_actions(piles)\<close> is exactly the set of pairs \<open>(i, j)\<close>
  with \<open>i\<close> a pile index and \<open>1 \<le> j \<le> piles[i]\<close>.
\<close>

theorem available_actions_exact:
  "available_actions ps = {(i, j). 0 \<le> i \<and> i < int (length ps) \<and> 1 \<le> j \<and> j \<le> ps ! nat i}"
  by (auto simp: available_actions_iff)

text \<open>
  C4. \<^verbatim>\<open>Nim.move\<close> raises exactly when the game is already won or the action
  is not a legal action of the position, and a won game always raises
  \<^verbatim>\<open>'Game already won.'\<close> first; a failed move returns no new state.
\<close>

theorem move_fails_exactly:
  "((\<exists>e. move g a = Inl e) \<longleftrightarrow> winner g \<noteq> None \<or> a \<notin> available_actions (piles g)) \<and>
   (winner g \<noteq> None \<longrightarrow> move g a = Inl GameAlreadyWon)"
proof -
  have "(\<exists>e. move g a = Inl e) \<longleftrightarrow> \<not> (\<exists>g'. move g a = Inr g')"
    by (cases "move g a") auto
  then show ?thesis using move_Inr_iff [of g a] by (cases a) (auto simp: move_def)
qed

theorem move_fails_exactly_witness:
  "move (nim_init [1, 0]) (1, 1) = Inl InvalidCount \<and> (\<exists>e. move (nim_init [1, 0]) (1, 1) = Inl e)"
proof -
  have "(1, 1) \<notin> available_actions (piles (nim_init [1, 0]))"
    by (simp add: available_actions_iff nim_init_def)
  then have "\<exists>e. move (nim_init [1, 0]) (1, 1) = Inl e"
    using move_fails_exactly [of "nim_init [1, 0]" "(1, 1)"] by blast
  moreover have "move (nim_init [1, 0]) (1, 1) = Inl InvalidCount"
    by (simp add: move_def nim_init_def)
  ultimately show ?thesis by simp
qed

text \<open>
  C5. A successful move removes \<open>c\<close> objects from pile \<open>i\<close> and leaves the
  other piles; if every pile is then empty the mover is the winner and keeps
  the turn, otherwise there is no winner and the turn passes.
\<close>

theorem move_effect:
  assumes "move g (i, c) = Inr g'"
  shows "piles g' = (piles g)[nat i := piles g ! nat i - c] \<and>
    (if list_all (\<lambda>p. p = 0) (piles g') then winner g' = Some (player g) \<and> player g' = player g
     else winner g' = None \<and> player g' = other_player (player g))"
  using assms by (cases rule: move_Inr_cases) auto

theorem move_effect_witness:
  "piles (switch_player (nim_init [1, 3, 5, 7]\<lparr>piles := [1, 3, 2, 7]\<rparr>)) = [1, 3, 2, 7] \<and>
   winner (switch_player (nim_init [1, 3, 5, 7]\<lparr>piles := [1, 3, 2, 7]\<rparr>)) = None \<and>
   player (switch_player (nim_init [1, 3, 5, 7]\<lparr>piles := [1, 3, 2, 7]\<rparr>)) = 1"
proof -
  let ?g = "nim_init [1, 3, 5, 7]"
  let ?g' = "switch_player (?g\<lparr>piles := [1, 3, 2, 7]\<rparr>)"
  have mv: "move ?g (2, 3) = Inr ?g'" by (simp add: move_def nim_init_def)
  from move_effect [OF mv] show ?thesis by (simp add: nim_init_def switch_player_def other_player_def)
qed

text \<open>
  C13. In every game reachable from the initial board \<open>[1, 3, 5, 7]\<close> by legal
  moves, piles are non-negative, the player is 0 or 1, the winner is set iff
  all piles are empty and is then the player recorded as to move; and a move
  that ends the game makes its mover the winner.
\<close>

theorem reachable_winner_iff_empty:
  assumes "nim_reach default_initial g"
  shows "list_all (\<lambda>p. 0 \<le> p) (piles g) \<and> (player g = 0 \<or> player g = 1) \<and>
    (winner g \<noteq> None \<longleftrightarrow> list_all (\<lambda>p. p = 0) (piles g)) \<and>
    (winner g = None \<or> winner g = Some (player g)) \<and>
    (\<forall>a g'. move g a = Inr g' \<and> winner g' \<noteq> None \<longrightarrow> winner g' = Some (player g))"
proof -
  have "nim_inv g"
    using assms by (rule nim_reach_inv) (simp_all add: default_initial_def)
  then show ?thesis by (auto simp: nim_inv_def dest: move_winner_is_mover)
qed

theorem reachable_winner_iff_empty_witness:
  "list_all (\<lambda>p. 0 \<le> p) [1, 3, 5, 7 :: int] \<and> winner (nim_init default_initial) = None"
proof -
  have "nim_reach default_initial (nim_init default_initial)" by (rule nim_reach.init)
  from reachable_winner_iff_empty [OF this] show ?thesis
    by (simp add: nim_init_def default_initial_def)
qed

text \<open>
  C22. Every successful move removes at least one object: the pile total
  drops by exactly the count removed, so no game has more moves than its
  initial pile total.
\<close>

theorem move_lowers_pile_total:
  assumes "move g (i, c) = Inr g'"
  shows "int (pile_total (piles g')) + c = int (pile_total (piles g)) \<and> 1 \<le> c"
  using move_pile_total [OF assms] by simp

theorem move_lowers_pile_total_witness:
  "pile_total (piles (switch_player (nim_init [2, 1]\<lparr>piles := [0, 1]\<rparr>))) = 1"
proof -
  have mv: "move (nim_init [2, 1]) (0, 2) = Inr (switch_player (nim_init [2, 1]\<lparr>piles := [0, 1]\<rparr>))"
    by (simp add: move_def nim_init_def)
  have "pile_total [2, 1] = 3" by (simp add: pile_total_def)
  with move_lowers_pile_total [OF mv] show ?thesis by (simp add: nim_init_def)
qed

end
