(* ===== verification/QLearning.thy ===== *)
theory QLearning
  imports Nim_Game
begin

text \<open>
  The off-policy learner, \<^verbatim>\<open>src/qlearning.py\<close> (class \<^verbatim>\<open>QLearning\<close>), and the
  value table it owns. The object's state is the record \<open>learner\<close> (the
  dictionary \<^verbatim>\<open>self.q\<close>, \<^verbatim>\<open>self.alpha\<close>, \<^verbatim>\<open>self.epsilon\<close>); each method is a
  function that takes the learner and returns its new state; the methods that
  draw random numbers take and return the generator state \<open>'g\<close> of a
  \<open>py_runtime\<close>. The loops over \<^verbatim>\<open>list(Nim.available_actions(state))\<close> are
  recursions over the list the runtime enumerates. Python's \<^verbatim>\<open>float('-inf')\<close>
  initial accumulator is the \<open>None\<close> of an option: the loops' variables
  \<open>(best_action, best_reward)\<close> only ever hold \<open>(None, -inf)\<close> or an action
  with its (finite) value.
\<close>

section \<open>State\<close>

record learner =
  q :: qtable
  alpha :: real
  epsilon :: real

text \<open>\<^verbatim>\<open>QLearning.__init__(self, alpha=0.5, epsilon=0.1)\<close>.\<close>

definition ql_init :: "real \<Rightarrow> real \<Rightarrow> learner" where
  "ql_init a e = \<lparr>q = Map.empty, alpha = a, epsilon = e\<rparr>"

section \<open>Operations\<close>

text \<open>\<^verbatim>\<open>get_q_value\<close>: \<^verbatim>\<open>self.q.get((tuple(state), action), 0)\<close>.\<close>

definition get_q_value :: "learner \<Rightarrow> piles \<Rightarrow> action option \<Rightarrow> real" where
  "get_q_value l s a = (case q l (s, a) of None \<Rightarrow> 0 | Some v \<Rightarrow> v)"

text \<open>
  The loop of \<^verbatim>\<open>best_future_reward\<close>: \<^verbatim>\<open>best_reward = max(best_reward, current_q)\<close>
  from \<^verbatim>\<open>float('-inf')\<close> (\<open>None\<close>), where \<open>current_q\<close> is the value
  \<open>get_q a\<close> the object's own \<^verbatim>\<open>self.get_q_value(state, a)\<close> returns.
\<close>

fun max_scan :: "(action \<Rightarrow> real) \<Rightarrow> action list \<Rightarrow> real option \<Rightarrow> real option" where
  "max_scan get_q [] best = best"
| "max_scan get_q (a # as) best =
     (let current_q = get_q a
      in max_scan get_q as (case best of None \<Rightarrow> Some current_q | Some b \<Rightarrow> Some (max b current_q)))"

text \<open>\<^verbatim>\<open>best_future_reward\<close>: the maximum, or \<open>0\<close> when it is still \<^verbatim>\<open>-inf\<close>.\<close>

definition best_future_reward :: "'g py_runtime \<Rightarrow> learner \<Rightarrow> piles \<Rightarrow> real" where
  "best_future_reward rt l s =
     (case max_scan (\<lambda>a. get_q_value l s (Some a)) (rt_set_list rt (available_actions s)) None of None \<Rightarrow> 0 | Some r \<Rightarrow> r)"

text \<open>\<^verbatim>\<open>update_value\<close>: \<^verbatim>\<open>new_q = old_q + alpha * (reward + future_rewards - old_q)\<close>, stored.\<close>

definition update_value ::
  "learner \<Rightarrow> piles \<Rightarrow> action option \<Rightarrow> real \<Rightarrow> real \<Rightarrow> real \<Rightarrow> learner" where
  "update_value l s a old_q reward future_rewards =
     l\<lparr>q := (q l)((s, a) \<mapsto> old_q + alpha l * (reward + future_rewards - old_q))\<rparr>"

text \<open>\<^verbatim>\<open>update_model\<close>: no randomness is drawn.\<close>

definition ql_update_model ::
  "'g py_runtime \<Rightarrow> learner \<Rightarrow> piles \<Rightarrow> action option \<Rightarrow> piles \<Rightarrow> real \<Rightarrow> learner" where
  "ql_update_model rt l old_state a new_state reward =
     (let old_q = get_q_value l old_state a;
          best_future = best_future_reward rt l new_state
      in update_value l old_state a old_q reward best_future)"

text \<open>
  The greedy loop of \<^verbatim>\<open>choose_action\<close>: \<^verbatim>\<open>if best_action is None or
  current_q > best_reward\<close> the pair is replaced, so the first action of
  maximal value in enumeration order is kept.
\<close>

fun greedy_scan ::
  "(action \<Rightarrow> real) \<Rightarrow> action list \<Rightarrow> (action \<times> real) option \<Rightarrow> (action \<times> real) option" where
  "greedy_scan get_q [] best = best"
| "greedy_scan get_q (a # as) best =
     (let current_q = get_q a
      in greedy_scan get_q as
           (case best of None \<Rightarrow> Some (a, current_q)
            | Some (ba, br) \<Rightarrow> if br < current_q then Some (a, current_q) else Some (ba, br)))"

text \<open>
  \<^verbatim>\<open>QLearning.choose_action(state, epsilon=True)\<close>. There is no guard for an
  empty action list: the greedy result is then \<^verbatim>\<open>None\<close>, and the exploring
  branch calls \<^verbatim>\<open>random.choice([])\<close>, which raises \<^verbatim>\<open>IndexError\<close>.
  \<^verbatim>\<open>random.random()\<close> is drawn only when \<open>explore\<close> holds (short-circuit \<^verbatim>\<open>and\<close>).
\<close>

definition ql_choose_action ::
  "'g py_runtime \<Rightarrow> learner \<Rightarrow> piles \<Rightarrow> bool \<Rightarrow> 'g \<Rightarrow> py_error + action option \<times> 'g" where
  "ql_choose_action rt l s explore g =
     (let actions = rt_set_list rt (available_actions s);
          best_action = map_option fst (greedy_scan (\<lambda>a. get_q_value l s (Some a)) actions None)
      in if explore then
           (case rt_random rt g of (u, g1) \<Rightarrow>
              if u < epsilon l then
                (case py_choice rt actions g1 of Inl e \<Rightarrow> Inl e | Inr (a, g2) \<Rightarrow> Inr (Some a, g2))
              else Inr (best_action, g1))
         else Inr (best_action, g))"

section \<open>Reference definitions\<close>

text \<open>
  What the loops compute, stated without the loops: the first action of
  maximal value in the enumeration (ties broken by position), and the largest
  value over the legal actions.
\<close>

definition first_argmax :: "(action \<Rightarrow> real) \<Rightarrow> action list \<Rightarrow> action option" where
  "first_argmax f xs = find (\<lambda>a. list_all (\<lambda>b. f b \<le> f a) xs) xs"

text \<open>
  A transition whose update keeps values in \<open>[-1, 1]\<close>: an intermediate one
  (reward \<open>0\<close>), or a final one (reward \<open>\<plusminus>1\<close>) into a position with no
  legal action, whose bootstrap target is \<open>0\<close>.
\<close>

definition bounded_transition :: "real \<Rightarrow> piles \<Rightarrow> bool" where
  "bounded_transition reward s' \<longleftrightarrow>
     reward = 0 \<or> ((reward = 1 \<or> reward = -1) \<and> available_actions s' = {})"

definition table_bounded :: "learner \<Rightarrow> bool" where
  "table_bounded l \<longleftrightarrow> (\<forall>v \<in> ran (q l). -1 \<le> v \<and> v \<le> 1) \<and> (\<forall>s. q l (s, None) = None)"

section \<open>Lemmas\<close>

lemma get_q_value_update_value:
  "get_q_value (update_value l s a old_q r f) s' a' =
     (if (s', a') = (s, a) then old_q + alpha l * (r + f - old_q) else get_q_value l s' a')"
  by (auto simp: get_q_value_def update_value_def)

lemma max_scan_Some:
  "max_scan f xs (Some b) = Some (Max (insert b (f ` set xs)))"
proof (induction xs arbitrary: b)
  case Nil
  then show ?case by simp
next
  case (Cons x xs)
  then show ?case by (cases "xs = []") (simp_all add: Let_def Max_insert max.assoc)
qed

lemma max_scan_None:
  "max_scan f xs None = (if xs = [] then None else Some (Max (f ` set xs)))"
  by (cases xs) (simp_all add: max_scan_Some)

lemma best_future_reward_eq:
  assumes "wf_runtime rt"
  shows "best_future_reward rt l s =
     (if available_actions s = {} then 0
      else Max ((\<lambda>a. get_q_value l s (Some a)) ` available_actions s))"
proof -
  have "rt_set_list rt (available_actions s) = [] \<longleftrightarrow> available_actions s = {}"
    using wf_runtime_set_list [OF assms, of "available_actions s"] by auto
  with assms show ?thesis by (simp add: best_future_reward_def max_scan_None)
qed

lemma greedy_scan_acc:
  "map_option fst (greedy_scan Q xs (Some (a0, Q a0))) = first_argmax Q (a0 # xs)"
proof (induction xs arbitrary: a0)
  case Nil
  then show ?case by (simp add: first_argmax_def)
next
  case (Cons x xs)
  show ?case
  proof (cases "Q a0 < Q x")
    case True
    then have "greedy_scan Q (x # xs) (Some (a0, Q a0)) = greedy_scan Q xs (Some (x, Q x))"
      by (simp add: Let_def)
    moreover have "find (\<lambda>a. list_all (\<lambda>b. Q b \<le> Q a) (a0 # x # xs)) (x # xs) =
        find (\<lambda>a. list_all (\<lambda>b. Q b \<le> Q a) (x # xs)) (x # xs)"
      using True by (intro find_cong) auto
    ultimately show ?thesis using True Cons.IH [of x] by (simp add: first_argmax_def)
  next
    case False
    then have "greedy_scan Q (x # xs) (Some (a0, Q a0)) = greedy_scan Q xs (Some (a0, Q a0))"
      by (simp add: Let_def)
    moreover have "find (\<lambda>a. list_all (\<lambda>b. Q b \<le> Q a) (a0 # x # xs)) (a0 # x # xs) =
        find (\<lambda>a. list_all (\<lambda>b. Q b \<le> Q a) (a0 # xs)) (a0 # xs)"
    proof (cases "list_all (\<lambda>b. Q b \<le> Q a0) xs")
      case True
      with False show ?thesis by simp
    next
      case notmax: False
      define P where "P = (\<lambda>a. list_all (\<lambda>b. Q b \<le> Q a) (a0 # x # xs))"
      define P' where "P' = (\<lambda>a. list_all (\<lambda>b. Q b \<le> Q a) (a0 # xs))"
      have "\<not> P a0" "\<not> P' a0" using notmax by (simp_all add: P_def P'_def)
      moreover have "\<not> P x" using False notmax by (auto simp: P_def list_all_iff)
      moreover have "find P xs = find P' xs" using False by (auto simp: P_def P'_def intro: find_cong)
      ultimately have "find P (a0 # x # xs) = find P' (a0 # xs)" by simp
      then show ?thesis by (simp only: P_def P'_def)
    qed
    ultimately show ?thesis using Cons.IH [of a0] by (simp add: first_argmax_def)
  qed
qed

lemma greedy_scan_first_argmax:
  "map_option fst (greedy_scan Q xs None) = first_argmax Q xs"
  by (cases xs) (simp_all add: greedy_scan_acc first_argmax_def)

lemma first_argmax_in: "first_argmax f xs = Some a \<Longrightarrow> a \<in> set xs"
  by (auto simp: first_argmax_def find_Some_iff)

lemma first_argmax_max: "first_argmax f xs = Some a \<Longrightarrow> b \<in> set xs \<Longrightarrow> f b \<le> f a"
  by (auto simp: first_argmax_def find_Some_iff list_all_iff)

lemma first_argmax_None: "first_argmax (f :: action \<Rightarrow> real) xs = None \<longleftrightarrow> xs = []"
proof
  assume none: "first_argmax f xs = None"
  show "xs = []"
  proof (rule ccontr)
    assume ne: "xs \<noteq> []"
    then have "Max (f ` set xs) \<in> f ` set xs" by (simp add: Max_in)
    then obtain a where a: "a \<in> set xs" "f a = Max (f ` set xs)" by auto
    then have "list_all (\<lambda>b. f b \<le> f a) xs" by (simp add: list_all_iff)
    with a none show False unfolding first_argmax_def find_None_iff by blast
  qed
qed (simp add: first_argmax_def)

lemma ql_choose_action_greedy:
  "ql_choose_action rt l s False g =
     Inr (first_argmax (\<lambda>a. get_q_value l s (Some a)) (rt_set_list rt (available_actions s)), g)"
  by (simp add: ql_choose_action_def greedy_scan_first_argmax)

lemma ql_choose_action_in_actions:
  assumes wf: "wf_runtime rt" and r: "ql_choose_action rt l s explore g = Inr (Some a, g')"
  shows "a \<in> available_actions s"
proof -
  let ?acts = "rt_set_list rt (available_actions s)"
  have set_acts: "set ?acts = available_actions s" using wf by simp
  from r consider
      (greedy) "first_argmax (\<lambda>a. get_q_value l s (Some a)) ?acts = Some a"
    | (random) g1 g2 where "py_choice rt ?acts g1 = Inr (a, g2)"
    by (auto simp: ql_choose_action_def greedy_scan_first_argmax Let_def
        split: if_splits prod.splits sum.splits)
  then show ?thesis
  proof cases
    case greedy
    then show ?thesis using set_acts by (auto dest: first_argmax_in)
  next
    case random
    then show ?thesis using set_acts py_choice_Inr [OF wf] by blast
  qed
qed

lemma ql_choose_action_terminal:
  assumes "wf_runtime rt" and "available_actions s = {}"
  shows "ql_choose_action rt l s explore g =
     (if explore then (case rt_random rt g of (u, g1) \<Rightarrow>
        if u < epsilon l then Inl EmptyChoice else Inr (None, g1))
      else Inr (None, g))"
proof -
  have "rt_set_list rt (available_actions s) = []"
    using wf_runtime_set_list [OF assms(1), of "{}"] assms(2) by simp
  then show ?thesis by (simp add: ql_choose_action_def split: prod.split)
qed

lemma ql_choose_action_live:
  assumes wf: "wf_runtime rt" and ne: "available_actions s \<noteq> {}"
  shows "\<exists>a g'. ql_choose_action rt l s explore g = Inr (Some a, g')"
proof -
  let ?acts = "rt_set_list rt (available_actions s)"
  have acts: "?acts \<noteq> []" using wf ne by simp
  then have greedy: "first_argmax (\<lambda>a. get_q_value l s (Some a)) ?acts \<noteq> None"
    by (simp add: first_argmax_None)
  obtain u g1 where r: "rt_random rt g = (u, g1)" by (cases "rt_random rt g")
  from acts obtain a g2 where c: "py_choice rt ?acts g1 = Inr (a, g2)"
    using py_choice_ok [OF wf] by blast
  from greedy obtain b where b: "first_argmax (\<lambda>a. get_q_value l s (Some a)) ?acts = Some b"
    by auto
  show ?thesis using r c b
    by (auto simp: ql_choose_action_def greedy_scan_first_argmax Let_def)
qed

lemma get_q_value_bounded:
  "table_bounded l \<Longrightarrow> -1 \<le> get_q_value l s a \<and> get_q_value l s a \<le> 1"
  by (auto simp: table_bounded_def get_q_value_def ran_def split: option.split)

lemma update_value_bounded:
  assumes "table_bounded l" and "0 \<le> alpha l" and "alpha l \<le> 1"
    and "-1 \<le> old_q" and "old_q \<le> 1" and "-1 \<le> r + f" and "r + f \<le> 1" and "a \<noteq> None"
  shows "table_bounded (update_value l s a old_q r f)"
proof -
  let ?v = "old_q + alpha l * (r + f - old_q)"
  from td_step_between [OF assms(2,3), of old_q "r + f"] assms(4-7)
  have "-1 \<le> ?v \<and> ?v \<le> 1" by linarith
  with assms(1,8) show ?thesis
    by (auto simp: table_bounded_def update_value_def ran_def)
qed

lemma best_future_reward_bounded:
  assumes "wf_runtime rt" and "table_bounded l"
  shows "-1 \<le> best_future_reward rt l s \<and> best_future_reward rt l s \<le> 1"
proof (cases "available_actions s = {}")
  case True
  with assms(1) show ?thesis by (simp add: best_future_reward_eq)
next
  case False
  let ?Q = "\<lambda>a. get_q_value l s (Some a)"
  have "Max (?Q ` available_actions s) \<in> ?Q ` available_actions s"
    using False by (simp add: Max_in)
  then obtain a where a: "Max (?Q ` available_actions s) = ?Q a" by auto
  then have "best_future_reward rt l s = ?Q a"
    using False assms(1) by (simp add: best_future_reward_eq)
  with get_q_value_bounded [OF assms(2)] show ?thesis by simp
qed

lemma best_future_reward_terminal:
  "wf_runtime rt \<Longrightarrow> available_actions s = {} \<Longrightarrow> best_future_reward rt l s = 0"
  by (simp add: best_future_reward_eq)

lemma ql_update_model_bounded:
  assumes wf: "wf_runtime rt" and tb: "table_bounded l" and "0 \<le> alpha l" and "alpha l \<le> 1"
    and "a \<noteq> None" and bt: "bounded_transition reward new_state"
  shows "table_bounded (ql_update_model rt l old_state a new_state reward)"
proof -
  let ?f = "best_future_reward rt l new_state"
  have "-1 \<le> reward + ?f \<and> reward + ?f \<le> 1"
    using bt best_future_reward_bounded [OF wf tb, of new_state]
      best_future_reward_terminal [OF wf, of new_state l]
    by (auto simp: bounded_transition_def)
  with assms get_q_value_bounded [OF tb] show ?thesis
    by (simp add: ql_update_model_def update_value_bounded)
qed

lemma first_argmax_Max:
  assumes "first_argmax (f :: action \<Rightarrow> real) xs = Some a"
  shows "f a = Max (f ` set xs)"
proof -
  have a: "a \<in> set xs" using first_argmax_in [OF assms] .
  have "f b \<le> f a" if "b \<in> set xs" for b using first_argmax_max [OF assms that] .
  with a show ?thesis by (intro Max_eqI [symmetric]) auto
qed

lemma ql_choose_action_greedy_draw:
  assumes "wf_runtime rt" and "available_actions s \<noteq> {}" and "rt_random rt g = (u, g1)"
    and "\<not> u < epsilon l"
  shows "\<exists>b. ql_choose_action rt l s True g = Inr (Some b, g1) \<and>
    get_q_value l s (Some b) = best_future_reward rt l s"
proof -
  let ?Q = "\<lambda>a. get_q_value l s (Some a)" and ?acts = "rt_set_list rt (available_actions s)"
  have sa: "set ?acts = available_actions s" using assms(1) by simp
  with assms(2) have "?acts \<noteq> []" by auto
  then obtain b where b: "first_argmax ?Q ?acts = Some b" by (cases "first_argmax ?Q ?acts") (simp_all add: first_argmax_None)
  have "ql_choose_action rt l s True g = Inr (Some b, g1)"
    using assms(3,4) b by (simp add: ql_choose_action_def greedy_scan_first_argmax)
  moreover have "?Q b = best_future_reward rt l s"
    using first_argmax_Max [OF b] sa assms(1,2) by (simp add: best_future_reward_eq)
  ultimately show ?thesis by blast
qed

lemma ql_update_model_terminal_value:
  assumes "wf_runtime rt" and "available_actions s' = {}"
  shows "get_q_value (ql_update_model rt l s a s' reward) s a =
      reward + (1 - alpha l) * (get_q_value l s a - reward)"
    and "alpha (ql_update_model rt l s a s' reward) = alpha l"
  using best_future_reward_terminal [OF assms]
  by (simp_all add: ql_update_model_def get_q_value_update_value algebra_simps)
     (simp add: update_value_def)

section \<open>Properties of the off-policy learner\<close>

text \<open>
  C9. Without exploration, \<^verbatim>\<open>QLearning.choose_action\<close> draws nothing from
  the generator and returns the first action, in the enumeration order of
  the set, whose value is maximal among the legal actions; it returns
  \<^verbatim>\<open>None\<close> exactly when there is no legal action, and otherwise a legal
  action of greatest value.
\<close>

theorem greedy_choice_is_first_argmax:
  assumes "wf_runtime rt"
  shows "\<exists>best. ql_choose_action rt l s False g = Inr (best, g) \<and>
    best = first_argmax (\<lambda>a. get_q_value l s (Some a)) (rt_set_list rt (available_actions s)) \<and>
    (best = None \<longleftrightarrow> available_actions s = {}) \<and>
    (\<forall>a. best = Some a \<longrightarrow> a \<in> available_actions s \<and>
       (\<forall>b \<in> available_actions s. get_q_value l s (Some b) \<le> get_q_value l s (Some a)))"
proof -
  let ?acts = "rt_set_list rt (available_actions s)"
  let ?f = "\<lambda>a. get_q_value l s (Some a)"
  have set_acts: "set ?acts = available_actions s" using assms by simp
  have "first_argmax ?f ?acts = None \<longleftrightarrow> available_actions s = {}"
    using assms by (simp add: first_argmax_None)
  moreover have "a \<in> available_actions s \<and> (\<forall>b \<in> available_actions s. ?f b \<le> ?f a)"
    if "first_argmax ?f ?acts = Some a" for a
    using first_argmax_in [OF that] first_argmax_max [OF that] set_acts by auto
  ultimately show ?thesis by (simp add: ql_choose_action_greedy)
qed

theorem greedy_choice_is_first_argmax_witness:
  "ql_choose_action stream_runtime (ql_init 0.5 0.1) [1] False ([], []) = Inr (Some (0, 1), ([], []))"
proof -
  have acts: "available_actions [1] = {(0, 1)}"
    by (auto simp: available_actions_iff)
  have "\<exists>best. ql_choose_action stream_runtime (ql_init 0.5 0.1) [1] False ([], []) = Inr (best, ([], [])) \<and>
      (best = None \<longleftrightarrow> available_actions [1] = {}) \<and>
      (\<forall>a. best = Some a \<longrightarrow> a \<in> available_actions [1])"
    using greedy_choice_is_first_argmax [OF wf_stream_runtime, of "ql_init 0.5 0.1" "[1]" "([], [])"]
    by meson
  then obtain best where b: "ql_choose_action stream_runtime (ql_init 0.5 0.1) [1] False ([], []) = Inr (best, ([], []))"
      and "best = None \<longleftrightarrow> available_actions [1] = {}"
      and "\<forall>a. best = Some a \<longrightarrow> a \<in> available_actions [1]"
    by blast
  with acts have "best = Some (0, 1)" by auto
  with b show ?thesis by simp
qed

text \<open>
  C17. \<^verbatim>\<open>best_future_reward(state)\<close> is \<open>0\<close> on a position with no legal
  action, and otherwise the value of some legal action that no legal action
  exceeds (the maximum, unvisited pairs counting \<open>0\<close>).
\<close>

theorem best_future_reward_is_max:
  assumes "wf_runtime rt"
  shows "(available_actions s = {} \<longrightarrow> best_future_reward rt l s = 0) \<and>
    (available_actions s \<noteq> {} \<longrightarrow>
       (\<exists>a \<in> available_actions s. best_future_reward rt l s = get_q_value l s (Some a)) \<and>
       (\<forall>a \<in> available_actions s. get_q_value l s (Some a) \<le> best_future_reward rt l s))"
proof (intro conjI impI)
  assume "available_actions s = {}"
  with assms show "best_future_reward rt l s = 0" by (simp add: best_future_reward_eq)
next
  assume ne: "available_actions s \<noteq> {}"
  let ?Q = "\<lambda>a. get_q_value l s (Some a)"
  have eq: "best_future_reward rt l s = Max (?Q ` available_actions s)"
    using assms ne by (simp add: best_future_reward_eq)
  have "Max (?Q ` available_actions s) \<in> ?Q ` available_actions s" using ne by (simp add: Max_in)
  with eq show "\<exists>a \<in> available_actions s. best_future_reward rt l s = ?Q a" by auto
  show "\<forall>a \<in> available_actions s. ?Q a \<le> best_future_reward rt l s"
    using eq by simp
qed

theorem best_future_reward_is_max_witness:
  "best_future_reward stream_runtime (ql_init 0.5 0.1) [0, 0] = 0"
proof -
  have "available_actions [0, 0] = {}" by (simp add: available_actions_empty_iff)
  with best_future_reward_is_max [OF wf_stream_runtime] show ?thesis by blast
qed

text \<open>
  C10. Repeating \<^verbatim>\<open>QLearning.update_model\<close> on a transition into a position
  with no legal action (target exactly \<open>0\<close>: \<^verbatim>\<open>best_future_reward\<close> of an
  empty action list) moves the value geometrically to the reward: after
  \<open>k\<close> updates it is \<open>reward + (1 - alpha)^k * (old - reward)\<close>. With
  \<open>alpha = 0.5\<close>, \<open>old = 0\<close>, \<open>reward = 1\<close> one update gives \<open>0.5\<close>, two
  give \<open>0.75\<close>.
\<close>

theorem ql_terminal_updates_converge:
  assumes "wf_runtime rt" and "available_actions s' = {}"
  shows "get_q_value (((\<lambda>l. ql_update_model rt l s a s' reward) ^^ k) l) s a =
      reward + (1 - alpha l) ^ k * (get_q_value l s a - reward)"
proof -
  have "get_q_value (((\<lambda>l. ql_update_model rt l s a s' reward) ^^ k) l) s a =
      reward + (1 - alpha l) ^ k * (get_q_value l s a - reward) \<and>
    alpha (((\<lambda>l. ql_update_model rt l s a s' reward) ^^ k) l) = alpha l"
  proof (induction k)
    case 0
    then show ?case by simp
  next
    case (Suc k)
    then show ?case by (simp add: ql_update_model_terminal_value [OF assms])
  qed
  then show ?thesis ..
qed

theorem ql_terminal_updates_converge_witness:
  "get_q_value (((\<lambda>l. ql_update_model stream_runtime l [1] (Some (0, 1)) [0] 1) ^^ 2) (ql_init 0.5 0.1))
     [1] (Some (0, 1)) = 0.75"
proof -
  have "available_actions [0] = {}" by (simp add: available_actions_empty_iff)
  from ql_terminal_updates_converge [OF wf_stream_runtime this, where s = "[1]" and a = "Some (0, 1)" and reward = 1 and k = 2 and l = "ql_init 0.5 0.1"]
  show ?thesis by (simp add: ql_init_def get_q_value_def power2_eq_square)
qed

text \<open>
  C11. \<^verbatim>\<open>QLearning.choose_action\<close> has no guard for a position without legal
  actions: with exploration on it raises \<^verbatim>\<open>IndexError\<close> (from
  \<^verbatim>\<open>random.choice([])\<close>) whenever the draw of \<^verbatim>\<open>random.random()\<close> is below
  \<open>epsilon\<close>, and otherwise returns \<^verbatim>\<open>None\<close>.
\<close>

theorem ql_choose_terminal_raises:
  assumes "wf_runtime rt" and "available_actions s = {}" and "rt_random rt g = (u, g1)"
  shows "ql_choose_action rt l s True g = (if u < epsilon l then Inl EmptyChoice else Inr (None, g1))"
  using ql_choose_action_terminal [OF assms(1,2)] assms(3) by simp

theorem ql_choose_terminal_raises_witness:
  "ql_choose_action stream_runtime (ql_init 0.5 0.1) [0, 0] True ([0.05], []) = Inl EmptyChoice"
proof -
  have e: "available_actions [0, 0] = {}" by (simp add: available_actions_empty_iff)
  have r: "rt_random stream_runtime ([0.05], []) = (0.05, ([], []))" by (simp add: stream_runtime_def)
  from ql_choose_terminal_raises [OF wf_stream_runtime e r] show ?thesis
    by (simp add: ql_init_def)
qed

end
