(* ===== verification/SARSA.thy ===== *)
theory SARSA
  imports QLearning
begin

text \<open>
  The on-policy learner, \<^verbatim>\<open>src/sarsa.py\<close> (class \<^verbatim>\<open>SARSA\<close>). It has the same
  state as the off-policy learner (the record \<open>learner\<close>) and its own copies
  of \<^verbatim>\<open>get_q_value\<close> and \<^verbatim>\<open>update_value\<close>, modelled as such. It differs in
  two places: \<^verbatim>\<open>choose_action\<close> returns \<^verbatim>\<open>None\<close> at once when there is no
  legal action, and \<^verbatim>\<open>update_model\<close> bootstraps from the value of an action
  it samples itself with \<^verbatim>\<open>choose_action(new_state)\<close>, exploration on,
  drawing from the generator. Lemmas: choosing never fails, and agrees with
  the off-policy learner on positions with a legal action; an update whose
  bootstrap draw is not exploring is the off-policy update; an update on a
  finished position uses target \<open>0\<close> and draws nothing; updates keep the
  table in \<open>[-1, 1]\<close>.
\<close>

section \<open>Operations\<close>

text \<open>\<^verbatim>\<open>SARSA.__init__(self, alpha=0.5, epsilon=0.1)\<close>.\<close>

definition sarsa_init :: "real \<Rightarrow> real \<Rightarrow> learner" where
  "sarsa_init a e = \<lparr>q = Map.empty, alpha = a, epsilon = e\<rparr>"

definition sarsa_get_q_value :: "learner \<Rightarrow> piles \<Rightarrow> action option \<Rightarrow> real" where
  "sarsa_get_q_value l s a = (case q l (s, a) of None \<Rightarrow> 0 | Some v \<Rightarrow> v)"

definition sarsa_update_value ::
  "learner \<Rightarrow> piles \<Rightarrow> action option \<Rightarrow> real \<Rightarrow> real \<Rightarrow> real \<Rightarrow> learner" where
  "sarsa_update_value l s a old_q reward future_rewards =
     l\<lparr>q := (q l)((s, a) \<mapsto> old_q + alpha l * (reward + future_rewards - old_q))\<rparr>"

text \<open>\<^verbatim>\<open>SARSA.choose_action(state, epsilon=True)\<close>, with the guard \<^verbatim>\<open>if not actions: return None\<close>.\<close>

definition sarsa_choose_action ::
  "'g py_runtime \<Rightarrow> learner \<Rightarrow> piles \<Rightarrow> bool \<Rightarrow> 'g \<Rightarrow> py_error + action option \<times> 'g" where
  "sarsa_choose_action rt l s explore g =
     (let actions = rt_set_list rt (available_actions s)
      in if actions = [] then Inr (None, g)
         else
           (let best_action =
                  map_option fst (greedy_scan (\<lambda>a. sarsa_get_q_value l s (Some a)) actions None)
            in if explore then
                 (case rt_random rt g of (u, g1) \<Rightarrow>
                    if u < epsilon l then
                      (case py_choice rt actions g1 of
                         Inl e \<Rightarrow> Inl e | Inr (a, g2) \<Rightarrow> Inr (Some a, g2))
                    else Inr (best_action, g1))
               else Inr (best_action, g)))"

text \<open>
  \<^verbatim>\<open>SARSA.update_model\<close>: the old value is read first, then the next action
  is sampled (exploring), then its value in the new position is the target.
\<close>

definition sarsa_update_model ::
  "'g py_runtime \<Rightarrow> learner \<Rightarrow> piles \<Rightarrow> action option \<Rightarrow> piles \<Rightarrow> real \<Rightarrow> 'g \<Rightarrow>
     py_error + learner \<times> 'g" where
  "sarsa_update_model rt l old_state a new_state reward g =
     (let old_q = sarsa_get_q_value l old_state a
      in case sarsa_choose_action rt l new_state True g of
           Inl e \<Rightarrow> Inl e
         | Inr (next_action, g1) \<Rightarrow>
             (let future_reward = sarsa_get_q_value l new_state next_action
              in Inr (sarsa_update_value l old_state a old_q reward future_reward, g1)))"

section \<open>Lemmas\<close>

text \<open>The duplicated helpers of the two classes compute the same functions.\<close>

lemma sarsa_get_q_value_eq [simp]: "sarsa_get_q_value = get_q_value"
  by (intro ext) (simp add: sarsa_get_q_value_def get_q_value_def)

lemma sarsa_update_value_eq [simp]: "sarsa_update_value = update_value"
  by (intro ext) (simp add: sarsa_update_value_def update_value_def)

lemma sarsa_choose_action_Inr: "\<exists>r. sarsa_choose_action rt l s explore g = Inr r"
  by (auto simp: sarsa_choose_action_def py_choice_def Let_def split: prod.split)

lemma sarsa_choose_action_terminal:
  "wf_runtime rt \<Longrightarrow> available_actions s = {} \<Longrightarrow> sarsa_choose_action rt l s explore g = Inr (None, g)"
  by (simp add: sarsa_choose_action_def)

lemma sarsa_choose_action_live:
  "wf_runtime rt \<Longrightarrow> available_actions s \<noteq> {} \<Longrightarrow>
     sarsa_choose_action rt l s explore g = ql_choose_action rt l s explore g"
  by (simp add: sarsa_choose_action_def ql_choose_action_def)

lemma sarsa_update_model_eq:
  assumes "sarsa_choose_action rt l new_state True g = Inr (next_action, g1)"
  shows "sarsa_update_model rt l old_state a new_state reward g =
     Inr (update_value l old_state a (get_q_value l old_state a) reward
            (get_q_value l new_state next_action), g1)"
  using assms by (simp add: sarsa_update_model_def)

lemma sarsa_update_model_Inr: "\<exists>r. sarsa_update_model rt l old_state a new_state reward g = Inr r"
  using sarsa_choose_action_Inr [of rt l new_state True g]
  by (auto simp: sarsa_update_model_def)

lemma sarsa_update_model_bounded:
  assumes wf: "wf_runtime rt" and tb: "table_bounded l" and "0 \<le> alpha l" and "alpha l \<le> 1"
    and "a \<noteq> None" and bt: "bounded_transition reward new_state"
    and r: "sarsa_update_model rt l old_state a new_state reward g = Inr (l', g')"
  shows "table_bounded l'"
proof -
  obtain next_action g1 where c: "sarsa_choose_action rt l new_state True g = Inr (next_action, g1)"
    using sarsa_choose_action_Inr by (metis surj_pair)
  let ?f = "get_q_value l new_state next_action"
  have "?f = 0" if "available_actions new_state = {}"
    using c sarsa_choose_action_terminal [OF wf that] tb
    by (simp add: get_q_value_def table_bounded_def)
  then have "-1 \<le> reward + ?f \<and> reward + ?f \<le> 1"
    using bt get_q_value_bounded [OF tb, of new_state next_action]
    by (auto simp: bounded_transition_def)
  moreover from r c have "l' = update_value l old_state a (get_q_value l old_state a) reward ?f"
    by (simp add: sarsa_update_model_eq)
  ultimately show ?thesis
    using assms(3-5) get_q_value_bounded [OF tb] by (simp add: update_value_bounded tb)
qed

section \<open>Properties of the on-policy learner\<close>

text \<open>
  C16. When the exploration draw of the bootstrap is not below \<open>epsilon\<close> and
  the new position has a legal action, \<^verbatim>\<open>SARSA.update_model\<close> makes
  exactly the update of \<^verbatim>\<open>QLearning.update_model\<close>: the sampled action is
  the greedy one, whose value is \<^verbatim>\<open>best_future_reward\<close>. The two learners
  differ only through the exploring draws.
\<close>

theorem sarsa_greedy_draw_is_qlearning:
  assumes "wf_runtime rt" and "available_actions s' \<noteq> {}" and "epsilon l \<le> fst (rt_random rt g)"
  shows "sarsa_update_model rt l s a s' reward g = Inr (ql_update_model rt l s a s' reward, snd (rt_random rt g))"
proof -
  obtain u g1 where r: "rt_random rt g = (u, g1)" by (cases "rt_random rt g")
  with assms(3) have "\<not> u < epsilon l" by simp
  from ql_choose_action_greedy_draw [OF assms(1,2) r this] obtain b
    where c: "ql_choose_action rt l s' True g = Inr (Some b, g1)"
      and v: "get_q_value l s' (Some b) = best_future_reward rt l s'" by blast
  have "sarsa_choose_action rt l s' True g = Inr (Some b, g1)"
    using c sarsa_choose_action_live [OF assms(1,2)] by simp
  from sarsa_update_model_eq [OF this] v r show ?thesis
    by (simp add: ql_update_model_def Let_def)
qed

theorem sarsa_greedy_draw_is_qlearning_witness:
  "sarsa_update_model stream_runtime (sarsa_init 0.5 0.1) [2] (Some (0, 1)) [1] 0 ([0.5], []) =
    Inr (ql_update_model stream_runtime (sarsa_init 0.5 0.1) [2] (Some (0, 1)) [1] 0, ([], []))"
proof -
  have "(0, 1) \<in> available_actions [1]" by (simp add: available_actions_iff)
  then have ne: "available_actions [1] \<noteq> {}" by blast
  have e: "epsilon (sarsa_init 0.5 0.1) \<le> fst (rt_random stream_runtime ([0.5], []))"
    by (simp add: sarsa_init_def stream_runtime_def)
  from sarsa_greedy_draw_is_qlearning [OF wf_stream_runtime ne e, of "[2]" "Some (0, 1)" 0]
  show ?thesis by (simp add: stream_runtime_def)
qed

text \<open>
  C23. On a new position with no legal action, \<^verbatim>\<open>SARSA.update_model\<close> draws
  nothing from the generator and its target is the stored value of
  \<open>(new_state, None)\<close>, which is \<open>0\<close> when no such entry exists: the update
  is \<open>old + alpha * (reward - old)\<close>.
\<close>

theorem sarsa_terminal_target_zero:
  assumes "wf_runtime rt" and "available_actions s' = {}" and "q l (s', None) = None"
  shows "sarsa_update_model rt l s a s' reward g =
     Inr (l\<lparr>q := (q l)((s, a) \<mapsto> get_q_value l s a + alpha l * (reward - get_q_value l s a))\<rparr>, g)"
  using sarsa_update_model_eq [OF sarsa_choose_action_terminal [OF assms(1,2)]] assms(3)
  by (simp add: update_value_def get_q_value_def)

theorem sarsa_terminal_target_zero_witness:
  "sarsa_update_model stream_runtime (sarsa_init 0.5 0.1) [1] (Some (0, 1)) [0] 1 ([], []) =
     Inr ((sarsa_init 0.5 0.1)\<lparr>q := [([1], Some (0, 1)) \<mapsto> 0.5]\<rparr>, ([], []))"
proof -
  have "available_actions [0] = {}" by (simp add: available_actions_empty_iff)
  moreover have "q (sarsa_init 0.5 0.1) ([0], None) = None" by (simp add: sarsa_init_def)
  ultimately show ?thesis
    using sarsa_terminal_target_zero [OF wf_stream_runtime]
    by (simp add: sarsa_init_def get_q_value_def)
qed

text \<open>
  C24. \<^verbatim>\<open>SARSA.choose_action\<close> never raises; on a position with no legal
  action it returns \<^verbatim>\<open>None\<close> at once, drawing nothing from the generator.
\<close>

theorem sarsa_choose_total:
  "(\<exists>r. sarsa_choose_action rt l s explore g = Inr r) \<and>
   (wf_runtime rt \<and> available_actions s = {} \<longrightarrow> sarsa_choose_action rt l s explore g = Inr (None, g))"
proof (intro conjI impI)
  show "\<exists>r. sarsa_choose_action rt l s explore g = Inr r" by (rule sarsa_choose_action_Inr)
next
  assume "wf_runtime rt \<and> available_actions s = {}"
  then show "sarsa_choose_action rt l s explore g = Inr (None, g)"
    by (simp add: sarsa_choose_action_terminal)
qed

theorem sarsa_choose_total_witness:
  "sarsa_choose_action stream_runtime (sarsa_init 0.5 0.1) [0, 0] True ([0.05], []) = Inr (None, ([0.05], []))"
proof -
  have "available_actions [0, 0] = {}" by (simp add: available_actions_empty_iff)
  with wf_stream_runtime sarsa_choose_total [of stream_runtime "sarsa_init 0.5 0.1" "[0, 0]" True "([0.05], [])"]
  show ?thesis by blast
qed

text \<open>
  C25. On every position with a legal action the two learners choose alike:
  \<^verbatim>\<open>SARSA.choose_action\<close> and \<^verbatim>\<open>QLearning.choose_action\<close> return the same
  result and consume the same random draws; they differ only on positions
  without legal actions.
\<close>

theorem sarsa_choice_agrees_live:
  assumes "wf_runtime rt" and "available_actions s \<noteq> {}"
  shows "sarsa_choose_action rt l s explore g = ql_choose_action rt l s explore g"
  using assms by (rule sarsa_choose_action_live)

theorem sarsa_choice_agrees_live_witness:
  "sarsa_choose_action stream_runtime (sarsa_init 0.5 0.1) [1] True ([0.05], [0]) =
   ql_choose_action stream_runtime (sarsa_init 0.5 0.1) [1] True ([0.05], [0])"
proof -
  have "(0, 1) \<in> available_actions [1]" by (simp add: available_actions_iff)
  then have "available_actions [1] \<noteq> {}" by blast
  from sarsa_choice_agrees_live [OF wf_stream_runtime this] show ?thesis .
qed

end
