(* ===== verification/Engine.thy ===== *)
theory Engine
  imports SARSA
begin

text \<open>
  The episode runner and its drivers, \<^verbatim>\<open>src/engine.py\<close>. A participant is
  one of the two learner classes (\<open>agent\<close>, dispatching \<^verbatim>\<open>choose_action\<close> and
  \<^verbatim>\<open>update_model\<close> to the class's methods). The state of
  \<^verbatim>\<open>run_game_episode\<close> is the game (\<open>nim\<close>) and the record \<open>runner\<close>: the
  dictionary \<^verbatim>\<open>last\<close> of pending transitions per seat, the agent, the
  optional opponent, and the generator state. One iteration of the
  \<^verbatim>\<open>while game.winner is None\<close> loop is \<open>episode_step\<close>; the loop is
  \<open>run_loop\<close>, a total function whose termination measure is the pile total,
  which every successful move lowers. \<^verbatim>\<open>train\<close> and \<^verbatim>\<open>play_ai_vs_ai\<close>
  iterate episodes, threading agents and generator.
\<close>

section \<open>Participants\<close>

datatype agent = SARSA_agent learner | QLearning_agent learner

primrec agent_learner :: "agent \<Rightarrow> learner" where
  "agent_learner (SARSA_agent l) = l"
| "agent_learner (QLearning_agent l) = l"

text \<open>\<^verbatim>\<open>agent.choose_action(state)\<close>, dispatched on the object's class.\<close>

primrec agent_choose_action ::
  "'g py_runtime \<Rightarrow> agent \<Rightarrow> piles \<Rightarrow> bool \<Rightarrow> 'g \<Rightarrow> py_error + action option \<times> 'g" where
  "agent_choose_action rt (SARSA_agent l) s explore g = sarsa_choose_action rt l s explore g"
| "agent_choose_action rt (QLearning_agent l) s explore g = ql_choose_action rt l s explore g"

text \<open>\<^verbatim>\<open>agent.update_model(old_state, action, new_state, reward)\<close>, dispatched.\<close>

primrec agent_update_model ::
  "'g py_runtime \<Rightarrow> agent \<Rightarrow> piles \<Rightarrow> action option \<Rightarrow> piles \<Rightarrow> real \<Rightarrow> 'g \<Rightarrow>
     py_error + agent \<times> 'g" where
  "agent_update_model rt (SARSA_agent l) s a s' reward g =
     (case sarsa_update_model rt l s a s' reward g of
        Inl e \<Rightarrow> Inl e | Inr (l', g') \<Rightarrow> Inr (SARSA_agent l', g'))"
| "agent_update_model rt (QLearning_agent l) s a s' reward g =
     Inr (QLearning_agent (ql_update_model rt l s a s' reward), g)"

section \<open>The episode runner\<close>

text \<open>An entry \<^verbatim>\<open>{"state": ..., "action": ...}\<close> of the dictionary \<^verbatim>\<open>last\<close>.\<close>

record pending =
  p_state :: "piles option"
  p_action :: "action option"

record 'g runner =
  last :: "int \<rightharpoonup> pending"
  ep_agent :: agent
  ep_opponent :: "agent option"
  rng :: 'g

text \<open>\<^verbatim>\<open>last = {0: {"state": None, "action": None}, 1: {...}}\<close>.\<close>

definition last_init :: "int \<rightharpoonup> pending" where
  "last_init = [0 \<mapsto> \<lparr>p_state = None, p_action = None\<rparr>, 1 \<mapsto> \<lparr>p_state = None, p_action = None\<rparr>]"

text \<open>
  The participant of a seat: \<^verbatim>\<open>opponent if opponent is not None and
  player == 1 else agent\<close>; and writing back the mutated object.
\<close>

definition seat_agent :: "'g runner \<Rightarrow> int \<Rightarrow> agent" where
  "seat_agent r p =
     (case ep_opponent r of Some opp \<Rightarrow> if p = 1 then opp else ep_agent r | None \<Rightarrow> ep_agent r)"

definition set_seat_agent :: "'g runner \<Rightarrow> int \<Rightarrow> agent \<Rightarrow> 'g runner" where
  "set_seat_agent r p a =
     (case ep_opponent r of
        Some _ \<Rightarrow> if p = 1 then r\<lparr>ep_opponent := Some a\<rparr> else r\<lparr>ep_agent := a\<rparr>
      | None \<Rightarrow> r\<lparr>ep_agent := a\<rparr>)"

text \<open>The seat's participant learns from one transition.\<close>

definition seat_update ::
  "'g py_runtime \<Rightarrow> 'g runner \<Rightarrow> int \<Rightarrow> piles \<Rightarrow> action option \<Rightarrow> piles \<Rightarrow> real \<Rightarrow>
     py_error + 'g runner" where
  "seat_update rt r p s a s' reward =
     (case agent_update_model rt (seat_agent r p) s a s' reward (rng r) of
        Inl e \<Rightarrow> Inl e
      | Inr (a', g') \<Rightarrow> Inr ((set_seat_agent r p a')\<lparr>rng := g'\<rparr>))"

text \<open>\<^verbatim>\<open>game.move(action)\<close> with the value \<^verbatim>\<open>choose_action\<close> returned: unpacking \<^verbatim>\<open>None\<close> fails.\<close>

definition move_action :: "nim \<Rightarrow> action option \<Rightarrow> py_error + nim" where
  "move_action g a = (case a of None \<Rightarrow> Inl UnpackNone | Some act \<Rightarrow> move g act)"

text \<open>
  The terminal rewards: \<^verbatim>\<open>for player in (0, 1)\<close>, reward \<open>+1\<close> for the winner
  and \<open>-1\<close> otherwise, for each seat that has a pending transition.
\<close>

fun terminal_updates ::
  "'g py_runtime \<Rightarrow> int list \<Rightarrow> 'g runner \<Rightarrow> piles \<Rightarrow> int \<Rightarrow> py_error + 'g runner" where
  "terminal_updates rt [] r new_state w = Inr r"
| "terminal_updates rt (p # ps) r new_state w =
     (let reward = (if w = p then 1 else -1)
      in case last r p of
           None \<Rightarrow> Inl MissingKey
         | Some pd \<Rightarrow>
             (case (p_state pd, p_action pd) of
                (Some ls, Some la) \<Rightarrow>
                  (case seat_update rt r p ls (Some la) new_state reward of
                     Inl e \<Rightarrow> Inl e
                   | Inr r' \<Rightarrow> terminal_updates rt ps r' new_state w)
              | _ \<Rightarrow> terminal_updates rt ps r new_state w))"

text \<open>
  The reward assignment after a move (the \<^verbatim>\<open>if training and game.winner is
  not None\<close> / \<^verbatim>\<open>elif training and last[game.player]["state"] is not None\<close>
  branches): the terminal updates of both seats, or, if play continues and
  the seat to move next has a pending transition, its delayed update with
  reward \<open>0\<close> and the current position as new state.
\<close>

definition assign_rewards :: "'g py_runtime \<Rightarrow> bool \<Rightarrow> nim \<Rightarrow> 'g runner \<Rightarrow> py_error + 'g runner" where
  "assign_rewards rt training g' r =
     (let new_state = piles g'
      in case winner g' of
           Some w \<Rightarrow> if training then terminal_updates rt [0, 1] r new_state w else Inr r
         | None \<Rightarrow>
             if training then
               (case last r (player g') of
                  None \<Rightarrow> Inl MissingKey
                | Some pd \<Rightarrow>
                    (case p_state pd of
                       None \<Rightarrow> Inr r
                     | Some ls \<Rightarrow> seat_update rt r (player g') ls (p_action pd) new_state 0))
             else Inr r)"

text \<open>
  One iteration of the loop of \<^verbatim>\<open>run_game_episode\<close>: the seat's participant
  chooses (exploring: \<^verbatim>\<open>choose_action(state)\<close> with its default), the pending
  entry of the mover is overwritten, the move is made, then the rewards are
  assigned. Returns the game after the move.
\<close>

definition episode_step ::
  "'g py_runtime \<Rightarrow> bool \<Rightarrow> nim \<Rightarrow> 'g runner \<Rightarrow> py_error + nim \<times> 'g runner" where
  "episode_step rt training g r =
     (let state = piles g
      in case agent_choose_action rt (seat_agent r (player g)) state True (rng r) of
           Inl e \<Rightarrow> Inl e
         | Inr (action, g1) \<Rightarrow>
             (let r1 = r\<lparr>last := (last r)(player g \<mapsto> \<lparr>p_state = Some state, p_action = action\<rparr>),
                         rng := g1\<rparr>
              in case move_action g action of
                   Inl e \<Rightarrow> Inl e
                 | Inr g' \<Rightarrow>
                     (case assign_rewards rt training g' r1 of
                        Inl e \<Rightarrow> Inl e | Inr r2 \<Rightarrow> Inr (g', r2))))"

text \<open>
  The loop \<^verbatim>\<open>while game.winner is None\<close>. It is total: a step that returns
  has made a successful move, which lowers the pile total.
\<close>

function run_loop ::
  "'g py_runtime \<Rightarrow> bool \<Rightarrow> nim \<Rightarrow> 'g runner \<Rightarrow> py_error + nim \<times> 'g runner" where
  "run_loop rt training g r =
     (case winner g of
        Some _ \<Rightarrow> Inr (g, r)
      | None \<Rightarrow>
          (case episode_step rt training g r of
             Inl e \<Rightarrow> Inl e
           | Inr (g', r') \<Rightarrow> run_loop rt training g' r'))"
  by pat_completeness auto
termination
proof (relation "measure (\<lambda>(rt, training, g, r). pile_total (piles g))")
  fix rt :: "'g py_runtime" and training g r b g' r'
  assume "winner g = None" and step: "episode_step rt training g r = Inr b" and b: "(g', r') = b"
  from step b obtain a where "move_action g a = Inr g'"
    by (auto simp: episode_step_def Let_def split: sum.splits prod.splits option.splits if_splits)
  then have "pile_total (piles g') < pile_total (piles g)"
    by (auto simp: move_action_def split: option.splits dest: move_decreases)
  then show "((rt, training, g', r'), rt, training, g, r) \<in> measure (\<lambda>(rt, training, g, r). pile_total (piles g))"
    by simp
qed simp

text \<open>
  \<^verbatim>\<open>run_game_episode(agent, opponent, training)\<close> from a given first position
  (the source always starts from \<^verbatim>\<open>Nim()\<close>, i.e. \<open>default_initial\<close>); it
  returns \<^verbatim>\<open>game.winner\<close> together with the participants' new state and the
  generator state.
\<close>

definition run_episode_from ::
  "'g py_runtime \<Rightarrow> piles \<Rightarrow> agent \<Rightarrow> agent option \<Rightarrow> bool \<Rightarrow> 'g \<Rightarrow>
     py_error + int option \<times> agent \<times> agent option \<times> 'g" where
  "run_episode_from rt initial a opp training g =
     (case run_loop rt training (nim_init initial)
             \<lparr>last = last_init, ep_agent = a, ep_opponent = opp, rng = g\<rparr> of
        Inl e \<Rightarrow> Inl e
      | Inr (g', r) \<Rightarrow> Inr (winner g', ep_agent r, ep_opponent r, rng r))"

definition run_game_episode ::
  "'g py_runtime \<Rightarrow> agent \<Rightarrow> agent option \<Rightarrow> bool \<Rightarrow> 'g \<Rightarrow>
     py_error + int option \<times> agent \<times> agent option \<times> 'g" where
  "run_game_episode rt a opp training g = run_episode_from rt default_initial a opp training g"

section \<open>Drivers\<close>

text \<open>\<^verbatim>\<open>train(agent, n_episodes)\<close>: self-play episodes with learning on.\<close>

fun train :: "'g py_runtime \<Rightarrow> agent \<Rightarrow> nat \<Rightarrow> 'g \<Rightarrow> py_error + agent \<times> 'g" where
  "train rt a 0 g = Inr (a, g)"
| "train rt a (Suc n) g =
     (case run_game_episode rt a None True g of
        Inl e \<Rightarrow> Inl e
      | Inr (_, a', _, g') \<Rightarrow> train rt a' n g')"

text \<open>
  The loop of \<^verbatim>\<open>play_ai_vs_ai(agent1, agent2, n_games)\<close>: evaluation episodes
  (\<^verbatim>\<open>training=False\<close>), the counter \<^verbatim>\<open>wins[winner] += 1\<close> when a winner is
  returned (Python indexing, negative indices from the end, otherwise
  \<^verbatim>\<open>IndexError\<close>), and one entry appended to each \<^verbatim>\<open>win_progress\<close> list per
  game. The result is what the source hands to \<^verbatim>\<open>plot_performance\<close>,
  with the participants' final state (the objects the caller keeps).
\<close>

definition py_index :: "int \<Rightarrow> nat \<Rightarrow> nat option" where
  "py_index i n =
     (let j = (if i < 0 then int n + i else i) in if 0 \<le> j \<and> j < int n then Some (nat j) else None)"

fun ai_vs_ai_loop ::
  "'g py_runtime \<Rightarrow> agent \<Rightarrow> agent \<Rightarrow> nat \<Rightarrow> nat list \<Rightarrow> nat list list \<Rightarrow> 'g \<Rightarrow>
     py_error + nat list \<times> nat list list \<times> agent \<times> agent \<times> 'g" where
  "ai_vs_ai_loop rt a1 a2 0 wins progress g = Inr (wins, progress, a1, a2, g)"
| "ai_vs_ai_loop rt a1 a2 (Suc n) wins progress g =
     (case run_game_episode rt a1 (Some a2) False g of
        Inl e \<Rightarrow> Inl e
      | Inr (the_winner, a1', opp', g') \<Rightarrow>
          (let wins' =
             (case the_winner of
                None \<Rightarrow> Some wins
              | Some w \<Rightarrow> map_option (\<lambda>k. wins[k := wins ! k + 1]) (py_index w (length wins)))
           in case wins' of
                None \<Rightarrow> Inl ListIndex
              | Some ws \<Rightarrow>
                  ai_vs_ai_loop rt a1' (case opp' of Some a2' \<Rightarrow> a2' | None \<Rightarrow> a2) n ws
                    ((progress[0 := progress ! 0 @ [ws ! 0]])[1 := progress ! 1 @ [ws ! 1]]) g'))"

definition play_ai_vs_ai ::
  "'g py_runtime \<Rightarrow> agent \<Rightarrow> agent \<Rightarrow> nat \<Rightarrow> 'g \<Rightarrow> py_error + nat list list \<times> agent \<times> agent \<times> 'g" where
  "play_ai_vs_ai rt a1 a2 n_games g =
     (case ai_vs_ai_loop rt a1 a2 n_games [0, 0] [[], []] g of
        Inl e \<Rightarrow> Inl e
      | Inr (wins, progress, a1', a2', g') \<Rightarrow> Inr (progress, a1', a2', g'))"

section \<open>Invariants of the runner\<close>

text \<open>
  \<open>runner_inv\<close>: both seats have an entry in \<^verbatim>\<open>last\<close> (no \<^verbatim>\<open>KeyError\<close>),
  and a pending entry with a state also has an action. \<open>agent_ok\<close>: the
  participant's table is in \<open>[-1, 1]\<close> and its learning rate in \<open>[0, 1]\<close>.
\<close>

definition runner_inv :: "'g runner \<Rightarrow> bool" where
  "runner_inv r \<longleftrightarrow> last r 0 \<noteq> None \<and> last r 1 \<noteq> None \<and>
     (\<forall>p pd. last r p = Some pd \<longrightarrow> p_state pd \<noteq> None \<longrightarrow> p_action pd \<noteq> None)"

definition agent_ok :: "agent \<Rightarrow> bool" where
  "agent_ok a \<longleftrightarrow> table_bounded (agent_learner a) \<and> 0 \<le> alpha (agent_learner a) \<and> alpha (agent_learner a) \<le> 1"

definition runner_bounded :: "'g runner \<Rightarrow> bool" where
  "runner_bounded r \<longleftrightarrow> agent_ok (ep_agent r) \<and> (case ep_opponent r of None \<Rightarrow> True | Some opp \<Rightarrow> agent_ok opp)"

section \<open>Lemmas\<close>

declare run_loop.simps [simp del]

lemma run_loop_won: "winner g \<noteq> None \<Longrightarrow> run_loop rt training g r = Inr (g, r)"
  by (auto simp: run_loop.simps [of rt training g r])

lemma run_loop_step:
  "winner g = None \<Longrightarrow> episode_step rt training g r = Inr (g', r') \<Longrightarrow>
     run_loop rt training g r = run_loop rt training g' r'"
  by (simp add: run_loop.simps [of rt training g r])

lemma ql_choose_action_live_legal:
  assumes "wf_runtime rt" and "available_actions s \<noteq> {}"
  shows "\<exists>act g'. ql_choose_action rt l s explore g = Inr (Some act, g') \<and> act \<in> available_actions s"
proof -
  obtain act g' where c: "ql_choose_action rt l s explore g = Inr (Some act, g')"
    using ql_choose_action_live [OF assms] by blast
  moreover have "act \<in> available_actions s" using ql_choose_action_in_actions [OF assms(1) c] .
  ultimately show ?thesis by blast
qed

lemma agent_choose_action_live:
  assumes "wf_runtime rt" and "available_actions s \<noteq> {}"
  shows "\<exists>act g'. agent_choose_action rt a s explore g = Inr (Some act, g') \<and> act \<in> available_actions s"
  using ql_choose_action_live_legal [OF assms] assms
  by (cases a) (simp_all add: sarsa_choose_action_live)

lemma agent_update_model_Inr: "\<exists>a' g'. agent_update_model rt a s act s' reward g = Inr (a', g')"
  using sarsa_update_model_Inr [of rt "agent_learner a" s act s' reward g]
  by (cases a) (auto split: sum.splits)

lemma seat_update_Inr: "\<exists>r'. seat_update rt r p s act s' reward = Inr r'"
  using agent_update_model_Inr [of rt "seat_agent r p" s act s' reward "rng r"]
  by (auto simp: seat_update_def)

lemma seat_update_last: "seat_update rt r p s act s' reward = Inr r' \<Longrightarrow> last r' = last r"
  by (auto simp: seat_update_def set_seat_agent_def split: sum.splits prod.splits option.splits)

lemma terminal_updates_Inr:
  "list_all (\<lambda>p. last r p \<noteq> None) ps \<Longrightarrow>
     \<exists>r'. terminal_updates rt ps r s w = Inr r' \<and> last r' = last r"
proof (induction ps arbitrary: r)
  case Nil
  then show ?case by simp
next
  case (Cons p ps)
  from Cons.prems obtain pd where pd: "last r p = Some pd" by auto
  show ?case
  proof (cases "\<exists>ls la. p_state pd = Some ls \<and> p_action pd = Some la")
    case True
    then obtain ls la where l: "p_state pd = Some ls" "p_action pd = Some la" by blast
    obtain r1 where r1: "seat_update rt r p ls (Some la) s (if w = p then 1 else -1) = Inr r1"
      using seat_update_Inr by blast
    with seat_update_last have "last r1 = last r" by blast
    with Cons.prems Cons.IH [of r1] obtain r' where "terminal_updates rt ps r1 s w = Inr r'" "last r' = last r"
      by auto
    with pd l r1 show ?thesis by simp
  next
    case False
    then have "terminal_updates rt (p # ps) r s w = terminal_updates rt ps r s w"
      using pd by (auto simp: Let_def split: option.splits)
    with Cons.prems Cons.IH [of r] show ?thesis by simp
  qed
qed

lemma episode_step_move:
  assumes "agent_choose_action rt (seat_agent r (player g)) (piles g) True (rng r) = Inr (Some act, g1)"
    and "move g act = Inr g'"
  shows "episode_step rt training g r =
     (case assign_rewards rt training g'
             (r\<lparr>last := (last r)(player g \<mapsto> \<lparr>p_state = Some (piles g), p_action = Some act\<rparr>), rng := g1\<rparr>) of
        Inl e \<Rightarrow> Inl e | Inr r2 \<Rightarrow> Inr (g', r2))"
  using assms by (simp add: episode_step_def move_action_def)

lemma assign_rewards_ok:
  assumes inv: "nim_inv g'" and rinv: "runner_inv r"
  shows "\<exists>r'. assign_rewards rt training g' r = Inr r' \<and> last r' = last r"
proof (cases "winner g'")
  case (Some w)
  have "list_all (\<lambda>p. last r p \<noteq> None) [0, 1]" using rinv by (simp add: runner_inv_def)
  from terminal_updates_Inr [OF this] Some show ?thesis
    by (simp add: assign_rewards_def del: terminal_updates.simps)
next
  case None
  have "player g' = 0 \<or> player g' = 1" using inv by (simp add: nim_inv_def)
  with rinv obtain pd where pd: "last r (player g') = Some pd" by (auto simp: runner_inv_def)
  show ?thesis
  proof (cases "p_state pd")
    case (Some ls)
    obtain r2 where r2: "seat_update rt r (player g') ls (p_action pd) (piles g') 0 = Inr r2"
      using seat_update_Inr by blast
    with seat_update_last [OF r2] None pd Some show ?thesis by (simp add: assign_rewards_def)
  qed (use None pd in \<open>simp add: assign_rewards_def\<close>)
qed

lemma episode_step_ok:
  assumes wf: "wf_runtime rt" and inv: "nim_inv g" and live: "winner g = None" and rinv: "runner_inv r"
  shows "\<exists>g' r'. episode_step rt training g r = Inr (g', r') \<and> nim_inv g' \<and> runner_inv r'"
proof -
  have "available_actions (piles g) \<noteq> {}" using inv live by (rule nim_inv_unfinished_has_action)
  then obtain act g1 where ch: "agent_choose_action rt (seat_agent r (player g)) (piles g) True (rng r) = Inr (Some act, g1)"
      and legal: "act \<in> available_actions (piles g)"
    using agent_choose_action_live [OF wf] by blast
  then obtain g' where mv: "move g act = Inr g'" using live move_Inr_iff by blast
  have inv': "nim_inv g'" using inv mv by (cases act) (auto intro: move_preserves_inv)
  let ?r1 = "r\<lparr>last := (last r)(player g \<mapsto> \<lparr>p_state = Some (piles g), p_action = Some act\<rparr>), rng := g1\<rparr>"
  have rinv1: "runner_inv ?r1" using rinv by (auto simp: runner_inv_def)
  obtain r2 where "assign_rewards rt training g' ?r1 = Inr r2" "last r2 = last ?r1"
    using assign_rewards_ok [OF inv' rinv1] by blast
  with rinv1 inv' show ?thesis
    by (simp add: episode_step_move [OF ch mv] runner_inv_def)
qed

lemma run_loop_ok:
  assumes "wf_runtime rt" and "nim_inv g" and "runner_inv r"
  shows "\<exists>g' r'. run_loop rt training g r = Inr (g', r') \<and> winner g' \<noteq> None \<and> nim_inv g' \<and> runner_inv r'"
  using assms
proof (induction rt training g r rule: run_loop.induct)
  case (1 rt training g r)
  show ?case
  proof (cases "winner g")
    case (Some w)
    with "1.prems" show ?thesis by (simp add: run_loop.simps)
  next
    case None
    obtain g' r' where step: "episode_step rt training g r = Inr (g', r')" "nim_inv g'" "runner_inv r'"
      using episode_step_ok [OF "1.prems"(1,2) None "1.prems"(3)] by blast
    with "1.IH" [OF None step(1) refl] "1.prems"(1) None show ?thesis
      by (simp add: run_loop.simps [of rt training g r])
  qed
qed

lemma runner_inv_init: "runner_inv \<lparr>last = last_init, ep_agent = a, ep_opponent = opp, rng = g\<rparr>"
  by (simp add: runner_inv_def last_init_def)

lemma run_episode_from_ok:
  assumes "wf_runtime rt" and "list_all (\<lambda>p. 0 \<le> p) initial" and "\<not> list_all (\<lambda>p. p = 0) initial"
  shows "\<exists>w a' opp' g'. run_episode_from rt initial a opp training g = Inr (Some w, a', opp', g') \<and>
     (w = 0 \<or> w = 1)"
proof -
  obtain g' r' where "run_loop rt training (nim_init initial) \<lparr>last = last_init, ep_agent = a, ep_opponent = opp, rng = g\<rparr> = Inr (g', r')"
      and "winner g' \<noteq> None" and "nim_inv g'"
    using run_loop_ok [OF assms(1) nim_inv_init [OF assms(2,3)] runner_inv_init] by blast
  then show ?thesis by (auto simp: run_episode_from_def nim_inv_def)
qed

lemma update_value_alpha [simp]: "alpha (update_value l s a old_q r f) = alpha l"
  by (simp add: update_value_def)

lemma agent_update_model_ok:
  assumes wf: "wf_runtime rt" and ok: "agent_ok a" and "act \<noteq> None" and bt: "bounded_transition reward s'"
    and upd: "agent_update_model rt a s act s' reward g = Inr (a', g')"
  shows "agent_ok a'"
proof (cases a)
  case (SARSA_agent l)
  with upd obtain l' where l': "sarsa_update_model rt l s act s' reward g = Inr (l', g')" "a' = SARSA_agent l'"
    by (auto split: sum.splits)
  obtain next_action g1 where "sarsa_choose_action rt l s' True g = Inr (next_action, g1)"
    using sarsa_choose_action_Inr by (metis surj_pair)
  then have "l' = update_value l s act (get_q_value l s act) reward (get_q_value l s' next_action)"
    using l'(1) by (simp add: sarsa_update_model_eq)
  then have "alpha l' = alpha l" by simp
  with sarsa_update_model_bounded [OF wf _ _ _ assms(3) bt l'(1)] ok SARSA_agent l'(2) show ?thesis
    by (simp add: agent_ok_def)
next
  case (QLearning_agent l)
  with upd ok ql_update_model_bounded [OF wf _ _ _ assms(3) bt] show ?thesis
    by (auto simp: agent_ok_def ql_update_model_def Let_def)
qed

lemma seat_update_bounded:
  assumes wf: "wf_runtime rt" and rb: "runner_bounded r" and "act \<noteq> None" and "bounded_transition reward s'"
    and upd: "seat_update rt r p s act s' reward = Inr r'"
  shows "runner_bounded r'"
proof -
  have ok: "agent_ok (seat_agent r p)" using rb
    by (auto simp: runner_bounded_def seat_agent_def split: option.splits)
  from upd obtain a' g' where a': "agent_update_model rt (seat_agent r p) s act s' reward (rng r) = Inr (a', g')"
      and r': "r' = (set_seat_agent r p a')\<lparr>rng := g'\<rparr>"
    by (auto simp: seat_update_def split: sum.splits)
  have "agent_ok a'" using agent_update_model_ok [OF wf ok assms(3,4) a'] .
  with rb r' show ?thesis
    by (auto simp: runner_bounded_def set_seat_agent_def split: option.splits)
qed

lemma terminal_updates_bounded:
  assumes wf: "wf_runtime rt" and fin: "available_actions s = {}"
  shows "runner_bounded r \<Longrightarrow> terminal_updates rt ps r s w = Inr r' \<Longrightarrow> runner_bounded r'"
proof (induction ps arbitrary: r)
  case Nil
  then show ?case by simp
next
  case (Cons p ps)
  have bt: "bounded_transition (if w = p then 1 else -1) s"
    using fin by (simp add: bounded_transition_def)
  from Cons.prems obtain pd where pd: "last r p = Some pd"
    by (auto split: option.splits)
  show ?case
  proof (cases "\<exists>ls la. p_state pd = Some ls \<and> p_action pd = Some la")
    case True
    then obtain ls la where l: "p_state pd = Some ls" "p_action pd = Some la" by blast
    with Cons.prems pd obtain r1 where r1: "seat_update rt r p ls (Some la) s (if w = p then 1 else -1) = Inr r1"
        and rest: "terminal_updates rt ps r1 s w = Inr r'"
      by (auto simp: Let_def split: sum.splits)
    have "runner_bounded r1" using seat_update_bounded [OF wf Cons.prems(1) _ bt r1] by simp
    from this rest show ?thesis by (rule Cons.IH)
  next
    case False
    with Cons.prems pd have "terminal_updates rt ps r s w = Inr r'"
      by (auto simp: Let_def split: option.splits)
    with Cons.prems(1) show ?thesis by (rule Cons.IH)
  qed
qed


lemma assign_rewards_bounded:
  assumes wf: "wf_runtime rt" and inv: "nim_inv g'" and rinv: "runner_inv r" and rb: "runner_bounded r"
    and ar: "assign_rewards rt training g' r = Inr r'"
  shows "runner_bounded r'"
proof (cases "training")
  case False
  with ar rb show ?thesis by (simp add: assign_rewards_def Let_def split: option.splits)
next
  case True
  show ?thesis
  proof (cases "winner g'")
    case (Some w)
    with True ar have tu: "terminal_updates rt [0, 1] r (piles g') w = Inr r'"
      by (simp add: assign_rewards_def del: terminal_updates.simps)
    have "available_actions (piles g') = {}"
      using inv Some by (auto simp: nim_inv_def available_actions_empty_iff list_all_iff)
    from terminal_updates_bounded [OF wf this rb tu] show ?thesis .
  next
    case None
    have "player g' = 0 \<or> player g' = 1" using inv by (simp add: nim_inv_def)
    with rinv obtain pd where pd: "last r (player g') = Some pd" by (auto simp: runner_inv_def)
    show ?thesis
    proof (cases "p_state pd")
      case None
      with True \<open>winner g' = None\<close> pd ar rb show ?thesis by (simp add: assign_rewards_def)
    next
      case (Some ls)
      with True \<open>winner g' = None\<close> pd ar
      have su: "seat_update rt r (player g') ls (p_action pd) (piles g') 0 = Inr r'"
        by (simp add: assign_rewards_def)
      have "p_action pd \<noteq> None" using rinv pd Some by (auto simp: runner_inv_def)
      with seat_update_bounded [OF wf rb _ _ su] show ?thesis
        by (simp add: bounded_transition_def)
    qed
  qed
qed

lemma episode_step_bounded:
  assumes wf: "wf_runtime rt" and inv: "nim_inv g" and live: "winner g = None" and rinv: "runner_inv r"
    and rb: "runner_bounded r" and step: "episode_step rt training g r = Inr (g', r')"
  shows "runner_bounded r'"
proof -
  have "available_actions (piles g) \<noteq> {}" using inv live by (rule nim_inv_unfinished_has_action)
  then obtain act g1 where ch: "agent_choose_action rt (seat_agent r (player g)) (piles g) True (rng r) = Inr (Some act, g1)"
      and legal: "act \<in> available_actions (piles g)"
    using agent_choose_action_live [OF wf] by blast
  then obtain g'' where mv: "move g act = Inr g''" using live move_Inr_iff by blast
  have inv'': "nim_inv g''" using inv mv by (cases act) (auto intro: move_preserves_inv)
  let ?r1 = "r\<lparr>last := (last r)(player g \<mapsto> \<lparr>p_state = Some (piles g), p_action = Some act\<rparr>), rng := g1\<rparr>"
  have rinv1: "runner_inv ?r1" using rinv by (auto simp: runner_inv_def)
  have rb1: "runner_bounded ?r1" using rb by (simp add: runner_bounded_def)
  from step have "assign_rewards rt training g'' ?r1 = Inr r'"
    by (auto simp: episode_step_move [OF ch mv] split: sum.splits)
  from assign_rewards_bounded [OF wf inv'' rinv1 rb1 this] show ?thesis .
qed

lemma run_loop_bounded:
  assumes "wf_runtime rt" and "nim_inv g" and "runner_inv r" and "runner_bounded r"
    and "run_loop rt training g r = Inr (g', r')"
  shows "runner_bounded r'"
  using assms
proof (induction rt training g r rule: run_loop.induct)
  case (1 rt training g r)
  show ?case
  proof (cases "winner g")
    case (Some w)
    with "1.prems" show ?thesis by (simp add: run_loop.simps [of rt training g r])
  next
    case None
    obtain g1 r1 where step: "episode_step rt training g r = Inr (g1, r1)" "nim_inv g1" "runner_inv r1"
      using episode_step_ok [OF "1.prems"(1,2) None "1.prems"(3)] by blast
    have "runner_bounded r1"
      using episode_step_bounded [OF "1.prems"(1,2) None "1.prems"(3,4) step(1)] .
    moreover have "run_loop rt training g1 r1 = Inr (g', r')"
      using "1.prems"(5) None step(1) by (simp add: run_loop.simps [of rt training g r])
    ultimately show ?thesis
      using "1.IH" [OF None step(1) refl "1.prems"(1) step(2,3)] by blast
  qed
qed

lemma run_episode_from_bounded:
  assumes "wf_runtime rt" and "list_all (\<lambda>p. 0 \<le> p) initial" and "\<not> list_all (\<lambda>p. p = 0) initial"
    and "agent_ok a" and "case opp of None \<Rightarrow> True | Some b \<Rightarrow> agent_ok b"
    and "run_episode_from rt initial a opp training g = Inr (w, a', opp', g')"
  shows "agent_ok a' \<and> (case opp' of None \<Rightarrow> True | Some b \<Rightarrow> agent_ok b)"
proof -
  let ?r = "\<lparr>last = last_init, ep_agent = a, ep_opponent = opp, rng = g\<rparr>"
  obtain gf rf where loop: "run_loop rt training (nim_init initial) ?r = Inr (gf, rf)"
    using assms(6) by (auto simp: run_episode_from_def split: sum.splits)
  have "runner_bounded ?r" using assms(4,5) by (simp add: runner_bounded_def)
  from run_loop_bounded [OF assms(1) nim_inv_init [OF assms(2,3)] runner_inv_init this loop]
  have "runner_bounded rf" .
  with loop assms(6) show ?thesis by (auto simp: run_episode_from_def runner_bounded_def)
qed

lemma default_initial_valid:
  "list_all (\<lambda>p. 0 \<le> p) default_initial \<and> \<not> list_all (\<lambda>p. p = 0) default_initial"
  by (simp add: default_initial_def)

lemma train_ok:
  assumes "wf_runtime rt" and "agent_ok a"
  shows "\<exists>a' g'. train rt a n g = Inr (a', g') \<and> agent_ok a'"
  using assms(2)
proof (induction n arbitrary: a g)
  case 0
  then show ?case by simp
next
  case (Suc n)
  note dv = default_initial_valid [THEN conjunct1] default_initial_valid [THEN conjunct2]
  obtain w a' opp' g' where ep: "run_episode_from rt default_initial a None True g = Inr (Some w, a', opp', g')"
    using run_episode_from_ok [OF assms(1) dv] by blast
  have "agent_ok a'" using run_episode_from_bounded [OF assms(1) dv Suc.prems _ ep] by simp
  with ep Suc.IH show ?case by (simp add: run_game_episode_def)
qed

lemma run_game_episode_ok:
  assumes "wf_runtime rt"
  shows "\<exists>w a' opp' g'. run_game_episode rt a opp training g = Inr (Some w, a', opp', g') \<and>
    (w = 0 \<or> w = 1)"
  using run_episode_from_ok [OF assms default_initial_valid [THEN conjunct1]
      default_initial_valid [THEN conjunct2]]
  by (simp add: run_game_episode_def)

lemma py_index_seat: "w = 0 \<or> w = 1 \<Longrightarrow> py_index w 2 = Some (nat w)"
  by (auto simp: py_index_def)

lemma assign_rewards_no_training: "assign_rewards rt False g' r = Inr r"
  by (simp add: assign_rewards_def Let_def split: option.split)

lemma episode_step_no_training:
  assumes "episode_step rt False g r = Inr (g', r')"
  shows "ep_agent r' = ep_agent r \<and> ep_opponent r' = ep_opponent r"
  using assms
  by (auto simp: episode_step_def assign_rewards_no_training Let_def split: sum.splits prod.splits)

lemma run_loop_no_training:
  "run_loop rt training g r = Inr (g', r') \<Longrightarrow> \<not> training \<Longrightarrow>
     ep_agent r' = ep_agent r \<and> ep_opponent r' = ep_opponent r"
proof (induction rt training g r rule: run_loop.induct)
  case (1 rt training g r)
  show ?case
  proof (cases "winner g")
    case (Some w)
    with "1.prems"(1) show ?thesis by (simp add: run_loop.simps [of rt training g r])
  next
    case None
    with "1.prems"(1) obtain g1 r1 where step: "episode_step rt training g r = Inr (g1, r1)"
        and rest: "run_loop rt training g1 r1 = Inr (g', r')"
      by (auto simp: run_loop.simps [of rt training g r] split: sum.splits)
    from "1.prems"(2) step have "ep_agent r1 = ep_agent r \<and> ep_opponent r1 = ep_opponent r"
      by (simp add: episode_step_no_training)
    with "1.IH" [OF None step refl rest "1.prems"(2)] show ?thesis by simp
  qed
qed

lemma run_game_episode_no_training:
  assumes "run_game_episode rt a opp False g = Inr (w, a', opp', g')"
  shows "a' = a \<and> opp' = opp"
  using assms run_loop_no_training [of rt False]
  by (fastforce simp: run_game_episode_def run_episode_from_def split: sum.splits)

lemma sorted_snoc_bound:
  "sorted xs \<Longrightarrow> \<forall>x \<in> set xs. x \<le> y \<Longrightarrow> y \<le> z \<Longrightarrow>
     sorted (xs @ [z]) \<and> (\<forall>x \<in> set (xs @ [z]). x \<le> z)"
  by (auto simp: sorted_append intro: order_trans)

lemma ai_vs_ai_loop_progress:
  assumes wf: "wf_runtime rt"
    and "length wins = 2" and "length progress = 2"
    and "length (progress ! 0) = m" and "length (progress ! 1) = m"
    and "wins ! 0 + wins ! 1 = m"
    and "\<forall>k < m. progress ! 0 ! k + progress ! 1 ! k = k + 1"
    and "\<forall>i < 2. sorted (progress ! i) \<and> (\<forall>x \<in> set (progress ! i). x \<le> wins ! i)"
  shows "\<exists>wins' progress' a1' a2' g'. ai_vs_ai_loop rt a1 a2 n wins progress g = Inr (wins', progress', a1', a2', g') \<and>
    length progress' = 2 \<and> length (progress' ! 0) = m + n \<and> length (progress' ! 1) = m + n \<and>
    (\<forall>k < m + n. progress' ! 0 ! k + progress' ! 1 ! k = k + 1) \<and>
    sorted (progress' ! 0) \<and> sorted (progress' ! 1) \<and> a1' = a1 \<and> a2' = a2"
  using assms(2-)
proof (induction n arbitrary: a1 a2 wins progress g m)
  case 0
  then show ?case by simp
next
  case (Suc n)
  obtain w a1' opp' g' where ep: "run_game_episode rt a1 (Some a2) False g = Inr (Some w, a1', opp', g')"
      and w: "w = 0 \<or> w = 1"
    using run_game_episode_ok [OF wf] by blast
  have same: "a1' = a1" "opp' = Some a2" using run_game_episode_no_training [OF ep] by simp_all
  define ws where "ws = wins[nat w := wins ! nat w + 1]"
  define pr where "pr = (progress[0 := progress ! 0 @ [ws ! 0]])[1 := progress ! 1 @ [ws ! 1]]"
  have step: "ai_vs_ai_loop rt a1 a2 (Suc n) wins progress g =
      ai_vs_ai_loop rt a1 a2 n ws pr g'"
    using ep same py_index_seat [OF w] Suc.prems(1) by (simp add: ws_def pr_def)
  have lw: "length ws = 2" and sw: "ws ! 0 + ws ! 1 = m + 1"
    using w Suc.prems(1,5) by (auto simp: ws_def nth_list_update)
  have lp: "length pr = 2" "length (pr ! 0) = m + 1" "length (pr ! 1) = m + 1"
    using Suc.prems(2-4) by (simp_all add: pr_def nth_list_update)
  have "\<forall>k < m + 1. pr ! 0 ! k + pr ! 1 ! k = k + 1"
  proof (intro allI impI)
    fix k assume "k < m + 1"
    then consider "k < m" | "k = m" by linarith
    then show "pr ! 0 ! k + pr ! 1 ! k = k + 1"
    proof cases
      case 1
      with Suc.prems(2-4,6) show ?thesis by (simp add: pr_def nth_list_update nth_append)
    next
      case 2
      with Suc.prems(2-4) sw show ?thesis by (simp add: pr_def nth_list_update nth_append)
    qed
  qed
  moreover have "\<forall>i < 2. sorted (pr ! i) \<and> (\<forall>x \<in> set (pr ! i). x \<le> ws ! i)"
  proof (intro allI impI)
    fix i :: nat assume i: "i < 2"
    have "pr ! i = progress ! i @ [ws ! i]"
      using i Suc.prems(2) by (cases i) (auto simp: pr_def nth_list_update)
    moreover have "wins ! i \<le> ws ! i"
      using i Suc.prems(1) w by (auto simp: ws_def nth_list_update)
    ultimately show "sorted (pr ! i) \<and> (\<forall>x \<in> set (pr ! i). x \<le> ws ! i)"
      using Suc.prems(7) i sorted_snoc_bound [of "progress ! i" "wins ! i" "ws ! i"] by auto
  qed
  ultimately show ?case using Suc.IH [OF lw lp sw] step by simp
qed

section \<open>Properties of the episode runner\<close>

text \<open>
  C1. Every episode of \<^verbatim>\<open>run_game_episode\<close>, for any participants,
  learning or not, returns without an exception, and \<^verbatim>\<open>game.winner\<close> is then
  a seat, \<open>0\<close> or \<open>1\<close>: the loop ends, no \<^verbatim>\<open>KeyError\<close>, \<^verbatim>\<open>TypeError\<close> or
  \<^verbatim>\<open>IndexError\<close> is raised, and no move is rejected.
\<close>

theorem run_game_episode_terminates:
  assumes "wf_runtime rt"
  shows "\<exists>w a' opp' g'. run_game_episode rt a opp training g = Inr (Some w, a', opp', g') \<and>
    (w = 0 \<or> w = 1)"
  by (rule run_game_episode_ok [OF assms])

theorem run_game_episode_terminates_witness:
  "\<exists>w a' opp' g'. run_game_episode stream_runtime (QLearning_agent (ql_init 0.5 0.1)) None True ([], []) =
     Inr (Some w, a', opp', g') \<and> (w = 0 \<or> w = 1)"
  by (rule run_game_episode_terminates [OF wf_stream_runtime])

text \<open>
  C2. \<^verbatim>\<open>train(agent, n)\<close> returns for every \<open>n\<close>, and if the agent starts with
  values in \<open>[-1, 1]\<close> and a learning rate in \<open>[0, 1]\<close>, every value of the
  trained table is in \<open>[-1, 1]\<close>.
\<close>

theorem train_values_bounded:
  assumes "wf_runtime rt" and "table_bounded (agent_learner a)"
    and "0 \<le> alpha (agent_learner a)" and "alpha (agent_learner a) \<le> 1"
  shows "\<exists>a' g'. train rt a n g = Inr (a', g') \<and>
    (\<forall>v \<in> ran (q (agent_learner a')). -1 \<le> v \<and> v \<le> 1)"
proof -
  have "agent_ok a" using assms(2-4) by (simp add: agent_ok_def)
  from train_ok [OF assms(1) this] obtain a' g' where "train rt a n g = Inr (a', g')" "agent_ok a'"
    by blast
  then show ?thesis by (auto simp: agent_ok_def table_bounded_def)
qed

theorem train_values_bounded_witness:
  "\<exists>a' g'. train stream_runtime (SARSA_agent (sarsa_init 0.5 0.1)) 3 ([], []) = Inr (a', g') \<and>
    (\<forall>v \<in> ran (q (agent_learner a')). -1 \<le> v \<and> v \<le> 1)"
  by (rule train_values_bounded [OF wf_stream_runtime])
     (simp_all add: table_bounded_def sarsa_init_def)

text \<open>
  C6. When a move wins, training assigns the terminal rewards to both seats:
  the winner's pending transition is updated towards \<open>+1\<close> and the loser's
  towards \<open>-1\<close> (the bootstrap of a finished position is \<open>0\<close>), and no other
  entry changes.
\<close>

theorem terminal_rewards_both_seats:
  assumes wf: "wf_runtime rt" and inv: "nim_inv g'" and won: "winner g' = Some w"
    and l0: "last r 0 = Some \<lparr>p_state = Some s0, p_action = Some a0\<rparr>"
    and l1: "last r 1 = Some \<lparr>p_state = Some s1, p_action = Some a1\<rparr>"
    and ag: "ep_agent r = QLearning_agent l" and self: "ep_opponent r = None"
    and dist: "(s0, a0) \<noteq> (s1, a1)"
  shows "\<exists>l'. assign_rewards rt True g' r = Inr (r\<lparr>ep_agent := QLearning_agent l'\<rparr>) \<and>
    get_q_value l' s0 (Some a0) =
      get_q_value l s0 (Some a0) + alpha l * ((if w = 0 then 1 else -1) - get_q_value l s0 (Some a0)) \<and>
    get_q_value l' s1 (Some a1) =
      get_q_value l s1 (Some a1) + alpha l * ((if w = 1 then 1 else -1) - get_q_value l s1 (Some a1)) \<and>
    (\<forall>k. k \<noteq> (s0, Some a0) \<and> k \<noteq> (s1, Some a1) \<longrightarrow> q l' k = q l k)"
proof -
  have fin: "available_actions (piles g') = {}"
    using inv won by (auto simp: nim_inv_def available_actions_empty_iff list_all_iff)
  let ?r0 = "if w = 0 then 1 else -1 :: real"
  let ?r1 = "if w = 1 then 1 else -1 :: real"
  define l1' where "l1' = ql_update_model rt l s0 (Some a0) (piles g') ?r0"
  define l2' where "l2' = ql_update_model rt l1' s1 (Some a1) (piles g') ?r1"
  have bf: "best_future_reward rt l'' (piles g') = 0" for l''
    using best_future_reward_terminal [OF wf fin] .
  have "assign_rewards rt True g' r = Inr (r\<lparr>ep_agent := QLearning_agent l2'\<rparr>)"
    using won l0 l1 ag self
    by (simp add: assign_rewards_def seat_update_def seat_agent_def set_seat_agent_def
        l1'_def l2'_def Let_def)
  moreover have g1: "get_q_value l1' s1 (Some a1) = get_q_value l s1 (Some a1)"
    using dist by (auto simp: l1'_def ql_update_model_def get_q_value_update_value)
  have q1: "q l1' = (q l)((s0, Some a0) \<mapsto> get_q_value l s0 (Some a0) + alpha l * (?r0 - get_q_value l s0 (Some a0)))"
    and al1: "alpha l1' = alpha l"
    by (simp_all add: l1'_def ql_update_model_def update_value_def bf Let_def)
  have q2: "q l2' = (q l1')((s1, Some a1) \<mapsto> get_q_value l s1 (Some a1) + alpha l * (?r1 - get_q_value l s1 (Some a1)))"
    using g1 al1 by (simp add: l2'_def ql_update_model_def update_value_def bf Let_def)
  ultimately show ?thesis
    using dist by (intro exI [of _ l2']) (auto simp: get_q_value_def q1 q2)
qed


theorem terminal_rewards_both_seats_witness:
  "\<exists>l'. assign_rewards stream_runtime True \<lparr>piles = [0, 0], player = 1, winner = Some 1\<rparr>
      \<lparr>last = [0 \<mapsto> \<lparr>p_state = Some [1, 1], p_action = Some (0, 1)\<rparr>,
               1 \<mapsto> \<lparr>p_state = Some [0, 1], p_action = Some (1, 1)\<rparr>],
       ep_agent = QLearning_agent (ql_init 0.5 0.1), ep_opponent = None, rng = ([], [])\<rparr> =
      Inr (\<lparr>last = [0 \<mapsto> \<lparr>p_state = Some [1, 1], p_action = Some (0, 1)\<rparr>,
               1 \<mapsto> \<lparr>p_state = Some [0, 1], p_action = Some (1, 1)\<rparr>],
            ep_agent = QLearning_agent l', ep_opponent = None, rng = ([], [])\<rparr>) \<and>
    get_q_value l' [1, 1] (Some (0, 1)) = - 0.5 \<and> get_q_value l' [0, 1] (Some (1, 1)) = 0.5"
proof -
  have inv: "nim_inv \<lparr>piles = [0, 0], player = 1, winner = Some 1\<rparr>" by (simp add: nim_inv_def)
  show ?thesis
    using terminal_rewards_both_seats [OF wf_stream_runtime inv, of 1
        "\<lparr>last = [0 \<mapsto> \<lparr>p_state = Some [1, 1], p_action = Some (0, 1)\<rparr>,
               1 \<mapsto> \<lparr>p_state = Some [0, 1], p_action = Some (1, 1)\<rparr>],
          ep_agent = QLearning_agent (ql_init 0.5 0.1), ep_opponent = None, rng = ([], [])\<rparr>"
        "[1, 1]" "(0, 1)" "[0, 1]" "(1, 1)" "ql_init 0.5 0.1"]
    by (auto simp: ql_init_def get_q_value_def)
qed

text \<open>
  C7. When play continues and the seat to move has a pending transition, it
  is updated with reward \<open>0\<close> and the position the opponent's reply left as
  its new state (the delayed update of the \<^verbatim>\<open>elif\<close> branch).
\<close>

theorem delayed_update_on_return:
  assumes "winner g' = None" and "last r (player g') = Some \<lparr>p_state = Some s, p_action = Some a\<rparr>"
    and "ep_agent r = QLearning_agent l" and "ep_opponent r = None"
  shows "\<exists>l'. assign_rewards rt True g' r = Inr (r\<lparr>ep_agent := QLearning_agent l'\<rparr>) \<and>
    q l' = (q l)((s, Some a) \<mapsto> get_q_value l s (Some a) +
      alpha l * (best_future_reward rt l (piles g') - get_q_value l s (Some a)))"
  using assms
  by (auto simp: assign_rewards_def seat_update_def seat_agent_def set_seat_agent_def
      ql_update_model_def update_value_def Let_def)

theorem delayed_update_on_return_witness:
  "\<exists>l'. assign_rewards stream_runtime True \<lparr>piles = [0, 1], player = 0, winner = None\<rparr>
      \<lparr>last = [0 \<mapsto> \<lparr>p_state = Some [1, 1], p_action = Some (0, 1)\<rparr>, 1 \<mapsto> \<lparr>p_state = None, p_action = None\<rparr>],
       ep_agent = QLearning_agent (ql_init 0.5 0.1), ep_opponent = None, rng = ([], [])\<rparr> =
      Inr (\<lparr>last = [0 \<mapsto> \<lparr>p_state = Some [1, 1], p_action = Some (0, 1)\<rparr>, 1 \<mapsto> \<lparr>p_state = None, p_action = None\<rparr>],
       ep_agent = QLearning_agent l', ep_opponent = None, rng = ([], [])\<rparr>)"
  using delayed_update_on_return [of "\<lparr>piles = [0, 1], player = 0, winner = None\<rparr>"
      "\<lparr>last = [0 \<mapsto> \<lparr>p_state = Some [1, 1], p_action = Some (0, 1)\<rparr>, 1 \<mapsto> \<lparr>p_state = None, p_action = None\<rparr>],
        ep_agent = QLearning_agent (ql_init 0.5 0.1), ep_opponent = None, rng = ([], [])\<rparr>"
      "[1, 1]" "(0, 1)" "ql_init 0.5 0.1" stream_runtime]
  by auto

text \<open>
  C14. On an unfinished position of a well-formed game, the action the
  seat's participant chooses is legal and \<^verbatim>\<open>game.move\<close> accepts it.
\<close>

theorem runner_moves_are_legal:
  assumes wf: "wf_runtime rt" and "nim_inv g" and "winner g = None"
    and c: "agent_choose_action rt (seat_agent r (player g)) (piles g) True (rng r) = Inr (x, g1)"
  shows "\<exists>act. x = Some act \<and> act \<in> available_actions (piles g) \<and> (\<exists>g'. move g act = Inr g')"
proof -
  have "available_actions (piles g) \<noteq> {}" using assms(2,3) by (rule nim_inv_unfinished_has_action)
  then obtain act g2 where "agent_choose_action rt (seat_agent r (player g)) (piles g) True (rng r) = Inr (Some act, g2)"
      and legal: "act \<in> available_actions (piles g)"
    using agent_choose_action_live [OF wf] by blast
  with c have "x = Some act" by simp
  with legal assms(3) move_Inr_iff show ?thesis by blast
qed

theorem runner_moves_are_legal_witness:
  "\<exists>act. (case agent_choose_action stream_runtime (QLearning_agent (ql_init 0.5 0.1)) [1] True ([0.5], []) of
      Inl _ \<Rightarrow> False | Inr (x, _) \<Rightarrow> x = Some act) \<and> act \<in> available_actions [1]"
proof -
  let ?r = "\<lparr>last = last_init, ep_agent = QLearning_agent (ql_init 0.5 0.1), ep_opponent = None, rng = ([0.5], [])\<rparr>
     :: (real list \<times> nat list) runner"
  have inv: "nim_inv (nim_init [1])" by (simp add: nim_inv_def nim_init_def)
  have w: "winner (nim_init [1]) = None" by (simp add: nim_init_def)
  have c: "agent_choose_action stream_runtime (seat_agent ?r (player (nim_init [1]))) (piles (nim_init [1])) True (rng ?r) =
      Inr (Some (0, 1), ([], []))"
    by (simp add: seat_agent_def nim_init_def ql_choose_action_def stream_runtime_def
        available_actions_def ql_init_def get_q_value_def)
  from runner_moves_are_legal [OF wf_stream_runtime inv w c] show ?thesis
    by (simp add: seat_agent_def nim_init_def ql_choose_action_def stream_runtime_def
        available_actions_def ql_init_def get_q_value_def)
qed

text \<open>
  C20. An evaluation episode (\<^verbatim>\<open>training=False\<close>) never changes the
  participants: no update is made.
\<close>

theorem evaluation_leaves_agents:
  assumes "run_game_episode rt a opp False g = Inr (w, a', opp', g')"
  shows "a' = a \<and> opp' = opp"
  by (rule run_game_episode_no_training [OF assms])

theorem evaluation_leaves_agents_witness:
  "\<exists>w g'. run_game_episode stream_runtime (QLearning_agent (ql_init 0.5 0.1)) (Some (SARSA_agent (sarsa_init 0.5 0.1))) False ([], []) =
     Inr (w, QLearning_agent (ql_init 0.5 0.1), Some (SARSA_agent (sarsa_init 0.5 0.1)), g')"
proof -
  obtain w a' opp' g' where ep: "run_game_episode stream_runtime (QLearning_agent (ql_init 0.5 0.1))
      (Some (SARSA_agent (sarsa_init 0.5 0.1))) False ([], []) = Inr (Some w, a', opp', g')"
    using run_game_episode_ok [OF wf_stream_runtime] by blast
  with evaluation_leaves_agents [OF ep] show ?thesis by blast
qed

text \<open>
  C12. Evaluation still explores: an evaluation step plays the action that
  \<^verbatim>\<open>choose_action(state)\<close> returns with its default \<^verbatim>\<open>epsilon=True\<close>, so
  it draws from the generator and may play a random action where the greedy
  choice differs.
\<close>

theorem evaluation_explores:
  assumes "agent_choose_action rt (seat_agent r (player g)) (piles g) True (rng r) = Inr (Some act, g1)"
    and "move g act = Inr g'"
  shows "episode_step rt False g r =
     Inr (g', r\<lparr>last := (last r)(player g \<mapsto> \<lparr>p_state = Some (piles g), p_action = Some act\<rparr>), rng := g1\<rparr>)"
  using assms by (simp add: episode_step_def move_action_def assign_rewards_no_training)

theorem evaluation_explores_witness:
  "ql_choose_action stream_runtime ((ql_init 0.5 0.1)\<lparr>q := [([2], Some (0, 2)) \<mapsto> 1]\<rparr>) [2] False ([0.05], [0]) =
     Inr (Some (0, 2), ([0.05], [0])) \<and>
   episode_step stream_runtime False (nim_init [2])
     \<lparr>last = last_init, ep_agent = QLearning_agent ((ql_init 0.5 0.1)\<lparr>q := [([2], Some (0, 2)) \<mapsto> 1]\<rparr>),
      ep_opponent = None, rng = ([0.05], [0])\<rparr> =
     Inr (switch_player ((nim_init [2])\<lparr>piles := [1]\<rparr>),
      \<lparr>last = last_init(0 \<mapsto> \<lparr>p_state = Some [2], p_action = Some (0, 1)\<rparr>),
       ep_agent = QLearning_agent ((ql_init 0.5 0.1)\<lparr>q := [([2], Some (0, 2)) \<mapsto> 1]\<rparr>),
       ep_opponent = None, rng = ([], [])\<rparr>)"
proof -
  let ?l = "(ql_init 0.5 0.1)\<lparr>q := [([2], Some (0, 2)) \<mapsto> 1]\<rparr>"
  have acts: "available_actions [2] = set [(0, 1), (0, 2)]"
    by (simp add: available_actions_def upto.simps)
  have sl: "rt_set_list stream_runtime (available_actions [2]) = [(0, 1), (0, 2)]"
    by (simp add: acts stream_runtime_def sorted_list_of_set_sort_remdups)
  have greedy: "ql_choose_action stream_runtime ?l [2] False ([0.05], [0]) = Inr (Some (0, 2), ([0.05], [0]))"
    by (simp add: ql_choose_action_def sl get_q_value_def ql_init_def)
  have ch: "agent_choose_action stream_runtime (QLearning_agent ?l) [2] True ([0.05], [0]) =
      Inr (Some (0, 1), ([], []))"
    unfolding agent_choose_action.simps ql_choose_action_def Let_def sl
    by (simp add: get_q_value_def ql_init_def stream_runtime_def py_choice_def)
  have mv: "move (nim_init [2]) (0, 1) = Inr (switch_player ((nim_init [2])\<lparr>piles := [1]\<rparr>))"
    by (simp add: move_def nim_init_def)
  have "episode_step stream_runtime False (nim_init [2])
      \<lparr>last = last_init, ep_agent = QLearning_agent ?l, ep_opponent = None, rng = ([0.05], [0])\<rparr> =
    Inr (switch_player ((nim_init [2])\<lparr>piles := [1]\<rparr>),
      \<lparr>last = last_init(0 \<mapsto> \<lparr>p_state = Some [2], p_action = Some (0, 1)\<rparr>),
       ep_agent = QLearning_agent ?l, ep_opponent = None, rng = ([], [])\<rparr>)"
    using evaluation_explores [of stream_runtime
        "\<lparr>last = last_init, ep_agent = QLearning_agent ?l, ep_opponent = None, rng = ([0.05], [0])\<rparr>"
        "nim_init [2]" "(0, 1)" "([], [])"] ch mv
    by (simp add: seat_agent_def nim_init_def)
  with greedy show ?thesis by simp
qed

text \<open>
  C19. \<^verbatim>\<open>play_ai_vs_ai(agent1, agent2, n)\<close> returns, and each of the two
  \<^verbatim>\<open>win_progress\<close> lists has one entry per game, the two cumulative win
  counts after game \<open>k + 1\<close> summing to \<open>k + 1\<close>: every game has a winner.
\<close>

theorem play_ai_vs_ai_progress:
  assumes "wf_runtime rt"
  shows "\<exists>progress a1' a2' g'. play_ai_vs_ai rt a1 a2 n g = Inr (progress, a1', a2', g') \<and>
    length progress = 2 \<and> length (progress ! 0) = n \<and> length (progress ! 1) = n \<and>
    (\<forall>k < n. progress ! 0 ! k + progress ! 1 ! k = k + 1) \<and>
    sorted (progress ! 0) \<and> sorted (progress ! 1) \<and> a1' = a1 \<and> a2' = a2"
  using ai_vs_ai_loop_progress [OF assms, of "[0, 0]" "[[], []]" 0 a1 a2 n g]
  by (auto simp: play_ai_vs_ai_def less_2_cases_iff)

theorem play_ai_vs_ai_progress_witness:
  "\<exists>progress a1' a2' g'. play_ai_vs_ai stream_runtime (QLearning_agent (ql_init 0.5 0.1))
      (SARSA_agent (sarsa_init 0.5 0.1)) 2 ([], []) = Inr (progress, a1', a2', g') \<and>
    length progress = 2 \<and> length (progress ! 0) = 2 \<and> length (progress ! 1) = 2 \<and>
    (\<forall>k < 2. progress ! 0 ! k + progress ! 1 ! k = k + 1) \<and>
    sorted (progress ! 0) \<and> sorted (progress ! 1) \<and>
    a1' = QLearning_agent (ql_init 0.5 0.1) \<and> a2' = SARSA_agent (sarsa_init 0.5 0.1)"
  by (rule play_ai_vs_ai_progress [OF wf_stream_runtime])

end
