(* ===== verification/Console.thy ===== *)
theory Console
  imports Engine
begin

text \<open>
  Interactive play, \<^verbatim>\<open>play\<close> and \<^verbatim>\<open>get_valid_user_action\<close> of
  \<^verbatim>\<open>src/engine.py\<close>. The console is the list of lines \<^verbatim>\<open>input()\<close> will read,
  each abstracted to what \<^verbatim>\<open>int(line)\<close> gives: \<open>Some n\<close>, or \<open>None\<close> when it
  raises \<^verbatim>\<open>ValueError\<close>; reading past the end raises \<^verbatim>\<open>EOFError\<close>
  (\<open>EndOfInput\<close>), which the source does not catch. Printing is not
  modelled. The game loop of \<^verbatim>\<open>play\<close> is total by the same measure as the
  episode loop.
\<close>

type_synonym console = "int option list"

section \<open>Reading a move\<close>

text \<open>
  \<^verbatim>\<open>get_valid_user_action(piles)\<close>, with \<open>actions\<close> the set
  \<^verbatim>\<open>Nim.available_actions(piles)\<close>: read a pile, then a count; a
  \<^verbatim>\<open>ValueError\<close> in either read restarts the loop after the lines consumed,
  an illegal pair is rejected, a legal one is returned.
\<close>

fun get_valid_user_action :: "action set \<Rightarrow> console \<Rightarrow> py_error + action \<times> console" where
  "get_valid_user_action actions [] = Inl EndOfInput"
| "get_valid_user_action actions (None # rest) = get_valid_user_action actions rest"
| "get_valid_user_action actions [Some pile] = Inl EndOfInput"
| "get_valid_user_action actions (Some pile # None # rest) = get_valid_user_action actions rest"
| "get_valid_user_action actions (Some pile # Some count # rest) =
     (if (pile, count) \<in> actions then Inr ((pile, count), rest)
      else get_valid_user_action actions rest)"

section \<open>The game against the human\<close>

text \<open>
  One ply of \<^verbatim>\<open>play\<close>: the human's seat reads a move from the console; the
  agent's seat asks \<^verbatim>\<open>agent.choose_action(game.piles, epsilon=False)\<close>, and
  printing \<^verbatim>\<open>action[1]\<close> of a \<^verbatim>\<open>None\<close> result raises \<^verbatim>\<open>TypeError\<close>
  (\<open>UnpackNone\<close>); then \<^verbatim>\<open>game.move(action)\<close>.
\<close>

definition play_step ::
  "'g py_runtime \<Rightarrow> agent \<Rightarrow> int \<Rightarrow> nim \<Rightarrow> console \<Rightarrow> 'g \<Rightarrow> py_error + nim \<times> console \<times> 'g" where
  "play_step rt a human game inp g =
     (if player game = human then
        (case get_valid_user_action (available_actions (piles game)) inp of
           Inl e \<Rightarrow> Inl e
         | Inr (act, inp') \<Rightarrow>
             (case move game act of Inl e \<Rightarrow> Inl e | Inr game' \<Rightarrow> Inr (game', inp', g)))
      else
        (case agent_choose_action rt a (piles game) False g of
           Inl e \<Rightarrow> Inl e
         | Inr (None, _) \<Rightarrow> Inl UnpackNone
         | Inr (Some act, g') \<Rightarrow>
             (case move game act of Inl e \<Rightarrow> Inl e | Inr game' \<Rightarrow> Inr (game', inp, g'))))"

text \<open>The loop \<^verbatim>\<open>while game.winner is None\<close> of \<^verbatim>\<open>play\<close>.\<close>

function play_loop ::
  "'g py_runtime \<Rightarrow> agent \<Rightarrow> int \<Rightarrow> nim \<Rightarrow> console \<Rightarrow> 'g \<Rightarrow> py_error + nim \<times> console \<times> 'g" where
  "play_loop rt a human game inp g =
     (case winner game of
        Some _ \<Rightarrow> Inr (game, inp, g)
      | None \<Rightarrow>
          (case play_step rt a human game inp g of
             Inl e \<Rightarrow> Inl e
           | Inr (game', inp', g') \<Rightarrow> play_loop rt a human game' inp' g'))"
  by pat_completeness auto
termination
proof (relation "measure (\<lambda>(rt, a, human, game, inp, g). pile_total (piles game))")
  fix rt :: "'g py_runtime" and a human game inp g b game' c inp' g'
  assume "winner game = None" and step: "play_step rt a human game inp g = Inr b"
    and b: "(game', c) = b" and c: "(inp', g') = c"
  from step b obtain act where "move game act = Inr game'"
    by (auto simp: play_step_def split: if_splits sum.splits prod.splits option.splits)
  then show "((rt, a, human, game', inp', g'), rt, a, human, game, inp, g)
      \<in> measure (\<lambda>(rt, a, human, game, inp, g). pile_total (piles game))"
    by (simp add: move_decreases)
qed simp

text \<open>
  \<^verbatim>\<open>play(agent, human=None)\<close>: the human's seat is \<^verbatim>\<open>random.randint(0, 1)\<close>
  (that is \<^verbatim>\<open>_randbelow(2)\<close>) unless given; the game starts from \<^verbatim>\<open>Nim()\<close>.
  Returns the winner, the human's seat, the unread console and the generator.
\<close>

definition play :: "'g py_runtime \<Rightarrow> agent \<Rightarrow> int option \<Rightarrow> console \<Rightarrow> 'g \<Rightarrow>
     py_error + int option \<times> int \<times> console \<times> 'g" where
  "play rt a human_opt inp g =
     (let (human, g1) = (case human_opt of None \<Rightarrow> (case rt_randbelow rt 2 g of (k, g') \<Rightarrow> (int k, g'))
                                         | Some h \<Rightarrow> (h, g))
      in case play_loop rt a human (nim_init default_initial) inp g1 of
           Inl e \<Rightarrow> Inl e
         | Inr (game, inp', g') \<Rightarrow> Inr (winner game, human, inp', g'))"

section \<open>Reference predicate\<close>

text \<open>
  A rejected attempt: the lines one turn of the \<^verbatim>\<open>while True\<close> loop of
  \<^verbatim>\<open>get_valid_user_action\<close> reads without returning: a malformed pile, a
  pile and a malformed count, or a pair that is not a legal action.
\<close>

fun rejected_attempt :: "action set \<Rightarrow> console \<Rightarrow> bool" where
  "rejected_attempt actions [None] = True"
| "rejected_attempt actions [Some pile, None] = True"
| "rejected_attempt actions [Some pile, Some count] = ((pile, count) \<notin> actions)"
| "rejected_attempt actions _ = False"

section \<open>Lemmas\<close>

declare play_loop.simps [simp del]

lemma get_valid_user_action_Inr:
  "get_valid_user_action actions inp = Inr (act, rest) \<Longrightarrow> act \<in> actions"
  by (induction actions inp rule: get_valid_user_action.induct) (auto split: if_splits)

lemma get_valid_user_action_Inl:
  "get_valid_user_action actions inp = Inl e \<Longrightarrow> e = EndOfInput"
  by (induction actions inp rule: get_valid_user_action.induct) (auto split: if_splits)

lemma get_valid_user_action_skip:
  "rejected_attempt actions xs \<Longrightarrow>
     get_valid_user_action actions (xs @ inp) = get_valid_user_action actions inp"
  by (erule rejected_attempt.elims) auto

lemma play_step_ok:
  assumes wf: "wf_runtime rt" and inv: "nim_inv game" and w: "winner game = None"
  shows "play_step rt a human game inp g = Inl EndOfInput \<or>
    (\<exists>game' inp' g'. play_step rt a human game inp g = Inr (game', inp', g') \<and> nim_inv game')"
proof (cases "player game = human")
  case True
  show ?thesis
  proof (cases "get_valid_user_action (available_actions (piles game)) inp")
    case (Inl e)
    with True get_valid_user_action_Inl [OF Inl] show ?thesis by (simp add: play_step_def)
  next
    case (Inr b)
    obtain act rest where b: "b = (act, rest)" by (cases b)
    with Inr have "act \<in> available_actions (piles game)" by (simp add: get_valid_user_action_Inr)
    then obtain game1 where mv: "move game act = Inr game1" using w move_Inr_iff by blast
    have "play_step rt a human game inp g = Inr (game1, rest, g)"
      using True Inr b mv by (simp add: play_step_def)
    with mv show ?thesis using move_preserves_inv [OF inv] by (cases act) auto
  qed
next
  case False
  have "available_actions (piles game) \<noteq> {}" using inv w by (rule nim_inv_unfinished_has_action)
  then obtain act g1 where c: "agent_choose_action rt a (piles game) False g = Inr (Some act, g1)"
      and legal: "act \<in> available_actions (piles game)"
    using agent_choose_action_live [OF wf] by blast
  obtain game1 where mv: "move game act = Inr game1" using legal w move_Inr_iff by blast
  have "play_step rt a human game inp g = Inr (game1, inp, g1)"
    using False c mv by (simp add: play_step_def)
  with mv show ?thesis using move_preserves_inv [OF inv] by (cases act) auto
qed

lemma play_loop_ok:
  assumes "wf_runtime rt" and "nim_inv game"
  shows "play_loop rt a human game inp g = Inl EndOfInput \<or>
    (\<exists>game' inp' g'. play_loop rt a human game inp g = Inr (game', inp', g') \<and>
       winner game' \<noteq> None \<and> nim_inv game')"
  using assms
proof (induction rt a human game inp g rule: play_loop.induct)
  case (1 rt a human game inp g)
  show ?case
  proof (cases "winner game")
    case (Some w)
    with "1.prems"(2) show ?thesis by (simp add: play_loop.simps [of rt a human game inp g])
  next
    case None
    show ?thesis
    proof (rule disjE [OF play_step_ok [OF "1.prems" None, of a human inp g]])
      assume "play_step rt a human game inp g = Inl EndOfInput"
      with None show ?thesis by (simp add: play_loop.simps [of rt a human game inp g])
    next
      assume "\<exists>game' inp' g'. play_step rt a human game inp g = Inr (game', inp', g') \<and> nim_inv game'"
      then obtain game1 inp1 g1 where st: "play_step rt a human game inp g = Inr (game1, inp1, g1)"
          and i1: "nim_inv game1" by blast
      from "1.IH" [OF None st refl refl "1.prems"(1) i1] st None show ?thesis
        by (simp add: play_loop.simps [of rt a human game inp g])
    qed
  qed
qed

lemma play_ok:
  assumes "wf_runtime rt"
  shows "play rt a human_opt inp g = Inl EndOfInput \<or>
    (\<exists>w human inp' g'. play rt a human_opt inp g = Inr (Some w, human, inp', g') \<and> (w = 0 \<or> w = 1))"
proof -
  have inv: "nim_inv (nim_init default_initial)"
    using default_initial_valid by (simp add: nim_inv_init)
  obtain human g1 where h: "(case human_opt of None \<Rightarrow> (case rt_randbelow rt 2 g of (k, g') \<Rightarrow> (int k, g'))
      | Some h \<Rightarrow> (h, g)) = (human, g1)" by (metis surj_pair)
  from play_loop_ok [OF assms inv, of a human inp g1] h show ?thesis
    by (auto simp: play_def nim_inv_def)
qed
section \<open>Properties of interactive play
\<close>

text \<open>
  C18. \<^verbatim>\<open>get_valid_user_action\<close> re-prompts on every malformed line and every
  illegal pair: after any sequence of rejected attempts, the first legal
  pair entered is returned and the console is left just after it.
\<close>

theorem user_action_reprompts:
  assumes "list_all (rejected_attempt actions) attempts" and "(pile, count) \<in> actions"
  shows "get_valid_user_action actions (concat attempts @ Some pile # Some count # rest) =
    Inr ((pile, count), rest)"
  using assms(1)
proof (induction attempts)
  case Nil
  with assms(2) show ?case by simp
next
  case (Cons xs attempts)
  then show ?case using get_valid_user_action_skip [of actions xs] by simp
qed

theorem user_action_reprompts_witness:
  "get_valid_user_action (available_actions [1, 3]) [None, Some 0, Some 2, Some 5, None, Some 1, Some 3, Some 9] =
    Inr ((1, 3), [Some 9])"
proof -
  have a: "(1, 3) \<in> available_actions [1, 3]" by (simp add: available_actions_iff)
  have r: "list_all (rejected_attempt (available_actions [1, 3])) [[None], [Some 0, Some 2], [Some 5, None]]"
    by (simp add: available_actions_iff)
  from user_action_reprompts [OF r a, of "[Some 9]"] show ?thesis by simp
qed

text \<open>
  C15. \<^verbatim>\<open>play(agent, human)\<close> against any agent raises nothing but
  \<^verbatim>\<open>EOFError\<close>: the agent's greedy move is always legal and the human's move
  is validated, so either the console runs out or the game ends with a
  winner, seat \<open>0\<close> or \<open>1\<close>.
\<close>

theorem play_fails_only_at_eof:
  assumes "wf_runtime rt"
  shows "play rt a human_opt inp g = Inl EndOfInput \<or>
    (\<exists>w human inp' g'. play rt a human_opt inp g = Inr (Some w, human, inp', g') \<and> (w = 0 \<or> w = 1))"
  by (rule play_ok [OF assms])

theorem play_fails_only_at_eof_witness:
  "play stream_runtime (QLearning_agent (ql_init 0.5 0.1)) (Some 1) [] ([], []) = Inl EndOfInput \<or>
    (\<exists>w human inp' g'. play stream_runtime (QLearning_agent (ql_init 0.5 0.1)) (Some 1) [] ([], []) =
      Inr (Some w, human, inp', g') \<and> (w = 0 \<or> w = 1))"
  by (rule play_fails_only_at_eof [OF wf_stream_runtime])

end
