(* ===== verification/Spec2Isabelle.thy ===== *)
theory Spec2Isabelle
  imports Console
begin

text \<open>
  \<^bold>\<open>A verification library for the Nim reinforcement-learning program\<close>
  (\<^verbatim>\<open>src/nim.py\<close>, \<^verbatim>\<open>src/qlearning.py\<close>, \<^verbatim>\<open>src/sarsa.py\<close>,
  \<^verbatim>\<open>src/engine.py\<close>, \<^verbatim>\<open>src/main.py\<close>).

  \<^bold>\<open>The program.\<close> A game object (\<^verbatim>\<open>Nim\<close>) holds the piles, the player to
  move and the winner. Two learners, \<^verbatim>\<open>QLearning\<close> (off-policy) and
  \<^verbatim>\<open>SARSA\<close> (on-policy), each own a dictionary of values keyed by
  (position, action), choose moves epsilon-greedily and update their values
  from transitions. The engine plays episodes: \<^verbatim>\<open>run_game_episode\<close>
  asks the seat's learner for a move, records it as the seat's pending
  transition, makes the move, and (when training) gives both seats their
  terminal reward \<open>+1\<close>/\<open>-1\<close> when the game ends, or gives the seat about
  to move its delayed update with reward \<open>0\<close>. \<^verbatim>\<open>train\<close> runs self-play
  episodes, \<^verbatim>\<open>play_ai_vs_ai\<close> runs evaluation games between two learners
  and hands the cumulative win counts to the plot, \<^verbatim>\<open>play\<close> runs a game
  against a human at the console, and \<^verbatim>\<open>main\<close> chains them.

  \<^bold>\<open>Theories.\<close>
  \<^item> \<open>Nim_Prelude\<close>: the model's types (\<open>piles\<close> and pile indices as
    Python's unbounded \<open>int\<close>, floats as \<open>real\<close>, the value table as a map
    \<open>qtable\<close> from \<open>(piles, action option)\<close>), the exceptions as the
    datatype \<open>py_error\<close> (every fallible operation returns
    \<open>py_error + _\<close>), and the Python runtime as the record
    \<open>py_runtime\<close>: a generator state \<open>'g\<close> threaded through every call, with
    \<^verbatim>\<open>random.random()\<close>, \<^verbatim>\<open>random._randbelow(n)\<close> (which
    \<^verbatim>\<open>random.choice\<close> and \<^verbatim>\<open>random.randint\<close> use, \<open>py_choice\<close>) and
    the iteration order of \<^verbatim>\<open>list(set)\<close>. Every theorem holds for all
    runtimes satisfying \<open>wf_runtime\<close>; \<open>stream_runtime\<close> (pre-drawn
    numbers, sets listed in order) instantiates it in the witnesses.
  \<^item> \<open>Nim_Game\<close>: class \<^verbatim>\<open>Nim\<close> as the record \<open>nim\<close>, with
    \<open>available_actions\<close>, \<open>other_player\<close>, \<open>switch_player\<close> and \<open>move\<close>
    (its three \<^verbatim>\<open>raise\<close>s in source order); the invariant \<open>nim_inv\<close> and
    the reachability relation \<open>nim_reach\<close> (an inductive step relation).
  \<^item> \<open>QLearning\<close>: the record \<open>learner\<close> (\<^verbatim>\<open>q\<close>, \<^verbatim>\<open>alpha\<close>,
    \<^verbatim>\<open>epsilon\<close>) and every method of \<^verbatim>\<open>QLearning\<close>; the loops over the
    actions are the recursions \<open>max_scan\<close> and \<open>greedy_scan\<close>, whose
    \<^verbatim>\<open>float('-inf')\<close> start is \<open>None\<close>. Reference definitions
    \<open>first_argmax\<close> and \<open>Max\<close> state what the loops compute.
  \<^item> \<open>SARSA\<close>: every method of \<^verbatim>\<open>SARSA\<close> over the same record.
  \<^item> \<open>Engine\<close>: the participants (\<open>agent\<close>, dispatching to the two classes),
    the locals of \<^verbatim>\<open>run_game_episode\<close> as the record \<open>runner\<close> (the
    dictionary \<^verbatim>\<open>last\<close> as a map from seats, the two participants, the
    generator), one loop iteration \<open>episode_step\<close> with its reward
    assignment \<open>assign_rewards\<close>/\<open>terminal_updates\<close>, the loop
    \<open>run_loop\<close>, and the drivers \<open>train\<close> and \<open>play_ai_vs_ai\<close>
    (\<open>ai_vs_ai_loop\<close>, with Python's list indexing \<open>py_index\<close>).
  \<^item> \<open>Console\<close>: \<^verbatim>\<open>get_valid_user_action\<close> and \<^verbatim>\<open>play\<close>, the
    console being the list of lines still to be read, each abstracted to
    the result of \<^verbatim>\<open>int(line)\<close>.
  \<^item> This theory: \<^verbatim>\<open>main()\<close> (\<open>main_ai_phase\<close>, \<open>main\<close>) and the
    properties that span the components.

  \<^bold>\<open>What is proved.\<close> For the game: the legal action set, exactly when a
  move fails and with which exception, the effect of a move, that every
  reachable game keeps \<open>nim_inv\<close> (winner set iff the piles are empty, and
  it is the last mover), and that a move lowers the pile total. For the
  learners: the greedy loop equals \<open>first_argmax\<close> (equivalence of the loop
  with a reference), \<^verbatim>\<open>best_future_reward\<close> is the maximum, the exact
  geometric convergence of repeated terminal updates to the reward, SARSA's
  sampled bootstrap (equal to the Q-learning update whenever its draw does
  not explore, target \<open>0\<close> on a finished position) and its never-failing
  choice, and that Q-learning's choice raises
  \<^verbatim>\<open>IndexError\<close> on a finished position. For the engine: every episode
  terminates without an exception with a winner \<open>0\<close> or \<open>1\<close>; training
  keeps all values in \<open>[-1, 1]\<close> (invariant \<open>runner_bounded\<close>, preserved by
  each step); the terminal and delayed updates; evaluation changes no table
  but still explores; the win counts of \<^verbatim>\<open>play_ai_vs_ai\<close>. For the
  console: re-prompting, and that \<^verbatim>\<open>play\<close> and \<^verbatim>\<open>main\<close> fail only with
  \<^verbatim>\<open>EOFError\<close>. The scenario of spec section 8 (piles \<open>[1, 1]\<close>) is proved
  for one self-play episode.

  \<^bold>\<open>Loops and fuel.\<close> No fuel is used. The episode loop and the loop of
  \<^verbatim>\<open>play\<close> are \<open>function\<close>s with a termination proof by the measure
  \<open>pile_total\<close>, which every successful move lowers (\<open>move_decreases\<close>);
  \<^verbatim>\<open>get_valid_user_action\<close> recurses on the finite console; the drivers
  recurse on their episode counts. So every termination claim states that
  the result is \<open>Inr\<close>.

  \<^bold>\<open>Not modelled.\<close> Printing and \<^verbatim>\<open>plot_performance\<close> (matplotlib
  output: the model returns the lists handed to the plot); the distribution
  of the generator (the theorems quantify over all generator behaviours);
  the text of console lines beyond what \<^verbatim>\<open>int()\<close> makes of them.
  \<open>run_episode_from\<close> generalises \<^verbatim>\<open>run_game_episode\<close> to a given first
  position (the source always uses \<^verbatim>\<open>Nim()\<close>, \<open>run_game_episode\<close> is that
  instance); it is used only for the \<open>[1, 1]\<close> scenario.
\<close>

section \<open>The entry point\<close>

text \<open>
  \<^verbatim>\<open>main()\<close> of \<^verbatim>\<open>src/main.py\<close>: train a SARSA and a Q-learning agent with
  the default hyperparameters for \<open>10000\<close> self-play episodes each, let them
  play \<open>100\<close> evaluation games (the result is what is plotted), then one game
  of each against the human at the console.
\<close>

definition main_ai_phase :: "'g py_runtime \<Rightarrow> 'g \<Rightarrow> py_error + agent \<times> agent \<times> nat list list \<times> 'g" where
  "main_ai_phase rt g =
     (case train rt (SARSA_agent (sarsa_init 0.5 0.1)) 10000 g of
        Inl e \<Rightarrow> Inl e
      | Inr (sarsa_agent, g1) \<Rightarrow>
          (case train rt (QLearning_agent (ql_init 0.5 0.1)) 10000 g1 of
             Inl e \<Rightarrow> Inl e
           | Inr (q_learning_agent, g2) \<Rightarrow>
               (case play_ai_vs_ai rt sarsa_agent q_learning_agent 100 g2 of
                  Inl e \<Rightarrow> Inl e
                | Inr (progress, sarsa_agent', q_learning_agent', g3) \<Rightarrow>
                    Inr (sarsa_agent', q_learning_agent', progress, g3))))"

definition main :: "'g py_runtime \<Rightarrow> console \<Rightarrow> 'g \<Rightarrow> py_error + nat list list \<times> console \<times> 'g" where
  "main rt inp g =
     (case main_ai_phase rt g of
        Inl e \<Rightarrow> Inl e
      | Inr (sarsa_agent, q_learning_agent, progress, g3) \<Rightarrow>
          (case play rt sarsa_agent None inp g3 of
             Inl e \<Rightarrow> Inl e
           | Inr (_, _, inp1, g4) \<Rightarrow>
               (case play rt q_learning_agent None inp1 g4 of
                  Inl e \<Rightarrow> Inl e
                | Inr (_, _, inp2, g5) \<Rightarrow> Inr (progress, inp2, g5))))"

section \<open>Lemmas\<close>

lemma default_learners_ok:
  "agent_ok (SARSA_agent (sarsa_init 0.5 0.1))" "agent_ok (QLearning_agent (ql_init 0.5 0.1))"
  by (simp_all add: agent_ok_def table_bounded_def sarsa_init_def ql_init_def)

lemma main_ai_phase_ok:
  assumes "wf_runtime rt"
  shows "\<exists>sa qa progress g'. main_ai_phase rt g = Inr (sa, qa, progress, g') \<and>
    agent_ok sa \<and> agent_ok qa \<and> length progress = 2 \<and>
    length (progress ! 0) = 100 \<and> length (progress ! 1) = 100 \<and>
    (\<forall>k < 100. progress ! 0 ! k + progress ! 1 ! k = k + 1)"
proof -
  obtain sa g1 where s: "train rt (SARSA_agent (sarsa_init 0.5 0.1)) 10000 g = Inr (sa, g1)" "agent_ok sa"
    using train_ok [OF assms default_learners_ok(1)] by blast
  obtain qa g2 where t: "train rt (QLearning_agent (ql_init 0.5 0.1)) 10000 g1 = Inr (qa, g2)" "agent_ok qa"
    using train_ok [OF assms default_learners_ok(2)] by blast
  obtain ws progress sa' qa' g3 where p: "ai_vs_ai_loop rt sa qa 100 [0, 0] [[], []] g2 = Inr (ws, progress, sa', qa', g3)"
      and "length progress = 2" "length (progress ! 0) = 100" "length (progress ! 1) = 100"
      "\<forall>k < 100. progress ! 0 ! k + progress ! 1 ! k = k + 1" "sa' = sa" "qa' = qa"
    using ai_vs_ai_loop_progress [OF assms, of "[0, 0]" "[[], []]" 0 sa qa 100 g2]
    by (auto simp: less_2_cases_iff)
  with s t show ?thesis by (simp add: main_ai_phase_def play_ai_vs_ai_def)
qed

lemma opening_1_1:
  assumes "a0 \<in> available_actions [1, 1]"
  obtains p1 a1 where
    "move (nim_init [1, 1]) a0 = Inr \<lparr>piles = p1, player = 1, winner = None\<rparr>"
    "available_actions p1 = {a1}" "p1 \<noteq> [1, 1]"
    "move \<lparr>piles = p1, player = 1, winner = None\<rparr> a1 = Inr \<lparr>piles = [0, 0], player = 1, winner = Some 1\<rparr>"
proof -
  have "available_actions [1, 1] = {(0, 1), (1, 1)}"
    by (simp add: available_actions_def upto.simps)
  then have "a0 = (0, 1) \<or> a0 = (1, 1)" using assms by simp
  then show ?thesis
  proof
    assume "a0 = (0, 1)"
    moreover have "available_actions [0, 1] = {(1, 1)}"
      by (simp add: available_actions_def upto.simps)
    ultimately show ?thesis
      by (intro that [of "[0, 1]" "(1, 1)"]) (simp_all add: move_def nim_init_def switch_player_def other_player_def)
  next
    assume "a0 = (1, 1)"
    moreover have "available_actions [1, 0] = {(0, 1)}"
      by (simp add: available_actions_def upto.simps)
    ultimately show ?thesis
      by (intro that [of "[1, 0]" "(0, 1)"]) (simp_all add: move_def nim_init_def switch_player_def other_player_def)
  qed
qed

section \<open>Properties of the whole program\<close>

text \<open>
  C3. \<^verbatim>\<open>main()\<close> raises nothing but \<^verbatim>\<open>EOFError\<close> at the console: the two
  trainings and the hundred evaluation games always complete, with both
  tables in \<open>[-1, 1]\<close> and a winner in every game, and the two games against
  the human end or wait for input that never comes.
\<close>

theorem main_fails_only_at_eof:
  assumes "wf_runtime rt"
  shows "(\<exists>sa qa progress g'. main_ai_phase rt g = Inr (sa, qa, progress, g') \<and>
      table_bounded (agent_learner sa) \<and> table_bounded (agent_learner qa) \<and>
      length (progress ! 0) = 100 \<and> (\<forall>k < 100. progress ! 0 ! k + progress ! 1 ! k = k + 1)) \<and>
    (main rt inp g = Inl EndOfInput \<or> (\<exists>r. main rt inp g = Inr r))"
proof -
  obtain sa qa progress g' where ph: "main_ai_phase rt g = Inr (sa, qa, progress, g')"
      and ok: "agent_ok sa" "agent_ok qa" "length (progress ! 0) = 100"
      "\<forall>k < 100. progress ! 0 ! k + progress ! 1 ! k = k + 1"
    using main_ai_phase_ok [OF assms, of g] by blast
  have "main rt inp g = Inl EndOfInput \<or> (\<exists>r. main rt inp g = Inr r)"
  proof (rule disjE [OF play_ok [OF assms, of sa None inp g']])
    assume "play rt sa None inp g' = Inl EndOfInput"
    with ph show ?thesis by (simp add: main_def)
  next
    assume "\<exists>w human inp' g''. play rt sa None inp g' = Inr (Some w, human, inp', g'') \<and> (w = 0 \<or> w = 1)"
    then obtain w h inp1 g4 where p1: "play rt sa None inp g' = Inr (Some w, h, inp1, g4)" by blast
    show ?thesis
    proof (rule disjE [OF play_ok [OF assms, of qa None inp1 g4]])
      assume "play rt qa None inp1 g4 = Inl EndOfInput"
      with ph p1 show ?thesis by (simp add: main_def)
    next
      assume "\<exists>w human inp' g''. play rt qa None inp1 g4 = Inr (Some w, human, inp', g'') \<and> (w = 0 \<or> w = 1)"
      with ph p1 show ?thesis by (auto simp: main_def)
    qed
  qed
  with ph ok show ?thesis by (auto simp: agent_ok_def)
qed

theorem main_fails_only_at_eof_witness:
  "(\<exists>sa qa progress g'. main_ai_phase stream_runtime ([], []) = Inr (sa, qa, progress, g') \<and>
      table_bounded (agent_learner sa) \<and> table_bounded (agent_learner qa) \<and>
      length (progress ! 0) = 100 \<and> (\<forall>k < 100. progress ! 0 ! k + progress ! 1 ! k = k + 1)) \<and>
    (main stream_runtime [] ([], []) = Inl EndOfInput \<or> (\<exists>r. main stream_runtime [] ([], []) = Inr r))"
  by (rule main_fails_only_at_eof [OF wf_stream_runtime])

text \<open>
  C8. The scenario of two piles of one object: in a self-play training
  episode from \<open>[1, 1]\<close> the second seat always wins, and the value of the
  opening action the first seat took moves towards \<open>-1\<close>
  (\<open>old + alpha * (-1 - old)\<close>), the other opening keeping its value.
\<close>

theorem self_play_1_1_opening_loses:
  assumes wf: "wf_runtime rt"
  shows "\<exists>a0 l' g'. a0 \<in> available_actions [1, 1] \<and>
    run_episode_from rt [1, 1] (QLearning_agent l) None True g = Inr (Some 1, QLearning_agent l', None, g') \<and>
    get_q_value l' [1, 1] (Some a0) =
      get_q_value l [1, 1] (Some a0) + alpha l * (-1 - get_q_value l [1, 1] (Some a0)) \<and>
    (\<forall>a. a \<noteq> a0 \<longrightarrow> get_q_value l' [1, 1] (Some a) = get_q_value l [1, 1] (Some a))"
proof -
  let ?r0 = "\<lparr>last = last_init, ep_agent = QLearning_agent l, ep_opponent = None, rng = g\<rparr>"
  have "available_actions [1, 1] \<noteq> {}" by (simp add: available_actions_def upto.simps)
  then obtain a0 g1 where c0: "ql_choose_action rt l [1, 1] True g = Inr (Some a0, g1)"
      and a0: "a0 \<in> available_actions [1, 1]"
    using ql_choose_action_live_legal [OF wf] by blast
  obtain p1 a1 where m0: "move (nim_init [1, 1]) a0 = Inr \<lparr>piles = p1, player = 1, winner = None\<rparr>"
      and acts: "available_actions p1 = {a1}" and p1: "p1 \<noteq> [1, 1]"
      and m1: "move \<lparr>piles = p1, player = 1, winner = None\<rparr> a1 = Inr \<lparr>piles = [0, 0], player = 1, winner = Some 1\<rparr>"
    using opening_1_1 [OF a0] by blast
  let ?gA = "\<lparr>piles = p1, player = 1, winner = None\<rparr>"
  let ?r1 = "?r0\<lparr>last := last_init(0 \<mapsto> \<lparr>p_state = Some [1, 1], p_action = Some a0\<rparr>), rng := g1\<rparr>"
  have s1: "episode_step rt True (nim_init [1, 1]) ?r0 = Inr (?gA, ?r1)"
    using episode_step_move [of rt ?r0 "nim_init [1, 1]" a0 g1, OF _ m0] c0
    by (simp add: seat_agent_def nim_init_def assign_rewards_def last_init_def)
  obtain a1' g2 where c1: "ql_choose_action rt l p1 True g1 = Inr (Some a1', g2)"
      and "a1' \<in> available_actions p1"
    using ql_choose_action_live_legal [OF wf] acts by blast
  with acts have a1': "a1' = a1" by simp
  define l1 where "l1 = ql_update_model rt l [1, 1] (Some a0) [0, 0] (-1)"
  define l2 where "l2 = ql_update_model rt l1 p1 (Some a1) [0, 0] 1"
  let ?r2 = "?r1\<lparr>last := (last ?r1)(1 \<mapsto> \<lparr>p_state = Some p1, p_action = Some a1\<rparr>), rng := g2\<rparr>"
  have s2: "episode_step rt True ?gA ?r1 =
      Inr (\<lparr>piles = [0, 0], player = 1, winner = Some 1\<rparr>, ?r2\<lparr>ep_agent := QLearning_agent l2\<rparr>)"
    using episode_step_move [of rt ?r1 ?gA a1 g2, OF _ m1] c1 a1'
    by (simp add: seat_agent_def assign_rewards_def seat_update_def set_seat_agent_def l1_def l2_def)
  have ep: "run_episode_from rt [1, 1] (QLearning_agent l) None True g = Inr (Some 1, QLearning_agent l2, None, g2)"
    using run_loop_step [OF _ s1] run_loop_step [OF _ s2]
      run_loop_won [of "\<lparr>piles = [0, 0], player = 1, winner = Some 1\<rparr>" rt True]
    by (simp add: run_episode_from_def nim_init_def)
  have fin: "available_actions [0, 0] = {}" by (simp add: available_actions_empty_iff)
  have q2: "get_q_value l2 [1, 1] b = get_q_value l1 [1, 1] b" for b
    using p1 by (simp add: l2_def ql_update_model_def get_q_value_update_value)
  have q1: "get_q_value l1 [1, 1] b =
      (if b = Some a0 then get_q_value l [1, 1] (Some a0) + alpha l * (-1 - get_q_value l [1, 1] (Some a0))
       else get_q_value l [1, 1] b)" for b
    by (simp add: l1_def ql_update_model_def get_q_value_update_value best_future_reward_terminal [OF wf fin])
  show ?thesis
    using a0 ep by (intro exI [of _ a0] exI [of _ l2] exI [of _ g2]) (simp add: q1 q2)
qed

theorem self_play_1_1_opening_loses_witness:
  "\<exists>a0 l' g'. a0 \<in> available_actions [1, 1] \<and>
    run_episode_from stream_runtime [1, 1] (QLearning_agent (ql_init 0.5 0.1)) None True ([], []) =
      Inr (Some 1, QLearning_agent l', None, g') \<and>
    get_q_value l' [1, 1] (Some a0) =
      get_q_value (ql_init 0.5 0.1) [1, 1] (Some a0) +
        alpha (ql_init 0.5 0.1) * (-1 - get_q_value (ql_init 0.5 0.1) [1, 1] (Some a0)) \<and>
    (\<forall>a. a \<noteq> a0 \<longrightarrow> get_q_value l' [1, 1] (Some a) = get_q_value (ql_init 0.5 0.1) [1, 1] (Some a))"
  by (rule self_play_1_1_opening_loses [OF wf_stream_runtime])

end
